theory Spec2Isabelle
  imports Main "HOL-Library.AList" "HOL-Library.Sublist"
begin

section \<open>JavaScript values, strings and plain objects\<close>

text \<open>
  The program is \<^verbatim>\<open>src/functions/transform.js\<close>. Its rows are the plain objects that
  the CSV parser returns (\<^verbatim>\<open>header: true\<close>): every own property is a column name
  with a string value (a row with more fields than headers, which the parser gives an
  array-valued extra property, is outside the model). The request is taken to carry a
  query-parameter object. A \<open>char\<close> stands for one UTF-16 code unit below 256.

  A plain object inherits from \<^verbatim>\<open>Object.prototype\<close>, so a dynamic read
  \<^verbatim>\<open>o[k]\<close> finds the inherited member when \<open>k\<close> is not an own property and names
  one; \<open>JProto k\<close> is that member.
\<close>

datatype jsval = JUndefined | JStr string | JNum int | JProto string

type_synonym obj = "(string \<times> jsval) list"

type_synonym csv_row = "(string \<times> string) list"

definition proto_names :: "string list" where
  "proto_names =
     [''constructor'', ''__defineGetter__'', ''__defineSetter__'', ''hasOwnProperty'',
      ''__lookupGetter__'', ''__lookupSetter__'', ''isPrototypeOf'',
      ''propertyIsEnumerable'', ''toString'', ''valueOf'', ''__proto__'',
      ''toLocaleString'']"

definition inherited :: "string \<Rightarrow> bool" where
  "inherited k = (k \<in> set proto_names)"

definition cells :: "csv_row \<Rightarrow> obj" where
  "cells row = map (\<lambda>(k, v). (k, JStr v)) row"

definition js_get :: "obj \<Rightarrow> string \<Rightarrow> jsval" where
  "js_get ob k =
     (case map_of ob k of
        Some v \<Rightarrow> v
      | None \<Rightarrow> if inherited k then JProto k else JUndefined)"

fun truthy :: "jsval \<Rightarrow> bool" where
  "truthy JUndefined = False"
| "truthy (JStr s) = (s \<noteq> [])"
| "truthy (JNum n) = (n \<noteq> 0)"
| "truthy (JProto k) = True"

definition str_truthy :: "string option \<Rightarrow> bool" where
  "str_truthy c = (case c of None \<Rightarrow> False | Some s \<Rightarrow> s \<noteq> [])"

fun digits :: "nat \<Rightarrow> string" where
  "digits n =
     (if n < 10 then [''0123456789'' ! n]
      else digits (n div 10) @ [''0123456789'' ! (n mod 10)])"

definition show_int :: "int \<Rightarrow> string" where
  "show_int i = (if i < 0 then CHR ''-'' # digits (nat (- i)) else digits (nat i))"

text \<open>Template literals and \<^verbatim>\<open>join\<close> convert with ToString; a native function prints
  as V8 prints it.\<close>

fun to_string :: "jsval \<Rightarrow> string" where
  "to_string JUndefined = ''undefined''"
| "to_string (JStr s) = s"
| "to_string (JNum n) = show_int n"
| "to_string (JProto k) =
     (if k = ''__proto__'' then ''[object Object]''
      else ''function '' @ (if k = ''constructor'' then ''Object'' else k)
             @ ''() { [native code] }'')"

definition js_space :: "char \<Rightarrow> bool" where
  "js_space c =
     (c \<in> set [CHR 0x09, CHR 0x0A, CHR 0x0B, CHR 0x0C, CHR 0x0D, CHR 0x20, CHR 0xA0])"

definition trim :: "string \<Rightarrow> string" where
  "trim s = rev (dropWhile js_space (rev (dropWhile js_space s)))"

fun js_join :: "string \<Rightarrow> string list \<Rightarrow> string" where
  "js_join sep [] = []"
| "js_join sep [x] = x"
| "js_join sep (x # y # ys) = x @ sep @ js_join sep (y # ys)"

text \<open>\<^verbatim>\<open>s.split(c)\<close> for a separator of one character.\<close>

fun split_on :: "char \<Rightarrow> string \<Rightarrow> string list" where
  "split_on c [] = [[]]"
| "split_on c (x # xs) =
     (if x = c then [] # split_on c xs
      else (case split_on c xs of
              p # ps \<Rightarrow> (x # p) # ps
            | [] \<Rightarrow> [[x]]))"

subsection \<open>Own property order\<close>

text \<open>
  An \<open>obj\<close> lists the own properties in the order of \<^verbatim>\<open>Object.keys\<close>: array
  indices first, ascending, then the other names in the order of creation. An assignment
  to an existing property keeps its place; assigning a string to \<^verbatim>\<open>__proto__\<close>
  creates nothing.
\<close>

definition is_digit :: "char \<Rightarrow> bool" where
  "is_digit c = (48 \<le> (of_char c :: nat) \<and> (of_char c :: nat) \<le> 57)"

definition index_val :: "string \<Rightarrow> nat" where
  "index_val s = foldl (\<lambda>a c. a * 10 + ((of_char c :: nat) - 48)) 0 s"

definition is_array_index :: "string \<Rightarrow> bool" where
  "is_array_index s =
     (s \<noteq> [] \<and> list_all is_digit s \<and> (s = ''0'' \<or> hd s \<noteq> CHR ''0'')
      \<and> index_val s < 4294967295)"

fun insert_index :: "string \<Rightarrow> jsval \<Rightarrow> obj \<Rightarrow> obj" where
  "insert_index k v [] = [(k, v)]"
| "insert_index k v ((k', v') # rest) =
     (if is_array_index k' \<and> index_val k' < index_val k
      then (k', v') # insert_index k v rest
      else (k, v) # (k', v') # rest)"

fun replace_value :: "string \<Rightarrow> jsval \<Rightarrow> obj \<Rightarrow> obj" where
  "replace_value k v [] = []"
| "replace_value k v ((k', v') # rest) =
     (if k' = k then (k, v) # rest else (k', v') # replace_value k v rest)"

definition obj_set :: "obj \<Rightarrow> string \<Rightarrow> jsval \<Rightarrow> obj" where
  "obj_set ob k v =
     (if k \<in> set (map fst ob) then replace_value k v ob
      else if k = ''__proto__'' then ob
      else if is_array_index k then insert_index k v ob
      else ob @ [(k, v)])"

fun object_assign :: "obj \<Rightarrow> obj \<Rightarrow> obj" where
  "object_assign target [] = target"
| "object_assign target ((k, v) # source) = object_assign (obj_set target k v) source"

subsection \<open>Dictionaries keyed by SKU\<close>

text \<open>
  \<^verbatim>\<open>skuIndex\<close> and the four relationship stores are object literals \<^verbatim>\<open>{}\<close> used as
  dictionaries. Only lookups and \<^verbatim>\<open>Object.keys(d).length\<close> read them, so the order of
  their keys is not kept. \<open>dict_defined\<close> is \<^verbatim>\<open>typeof d[k] !== 'undefined'\<close>, which is
  also the truth value of \<^verbatim>\<open>d[k]\<close> when the stored values are arrays or numbers.
\<close>

definition dict_defined :: "(string \<times> 'v) list \<Rightarrow> string \<Rightarrow> bool" where
  "dict_defined d k = (map_of d k \<noteq> None \<or> inherited k)"

definition dict_set :: "(string \<times> 'v) list \<Rightarrow> string \<Rightarrow> 'v \<Rightarrow> (string \<times> 'v) list" where
  "dict_set d k v = (if k = ''__proto__'' then d else AList.update k v d)"

section \<open>Errors\<close>

text \<open>
  \<open>Error m\<close> is \<^verbatim>\<open>throw new Error(m)\<close>. A \<open>TypeError\<close> is a fault of the runtime,
  named by the operation that failed. The handler's \<^verbatim>\<open>catch\<close> turns both into the
  error response, with \<^verbatim>\<open>e.message\<close>; for a fault that is the text of the engine
  (V8's current wording here), which names the operation and never the data.
\<close>

datatype fault =
  KeysOfUndefined | TrimOfUndefined | LengthOfUndefined | GroupsOfNull
  | PushNotFunction | MapNotFunction

datatype error = Error string | TypeError fault

fun message :: "error \<Rightarrow> string" where
  "message (Error m) = m"
| "message (TypeError KeysOfUndefined) = ''Cannot convert undefined or null to object''"
| "message (TypeError TrimOfUndefined) =
     ''Cannot read properties of undefined (reading 'trim')''"
| "message (TypeError LengthOfUndefined) =
     ''Cannot read properties of undefined (reading 'length')''"
| "message (TypeError GroupsOfNull) = ''Cannot read properties of null (reading 'groups')''"
| "message (TypeError PushNotFunction) =
     ''configurableChildrenByParent[row.parent_sku].push is not a function''"
| "message (TypeError MapNotFunction) =
     ''configurableChildrenByParent[row.sku].map is not a function''"

section \<open>The helper functions\<close>

fun findAdditionalAttributeHeaders_from :: "bool \<Rightarrow> string list \<Rightarrow> string list" where
  "findAdditionalAttributeHeaders_from passedAdditionalAttributeHeader [] = []"
| "findAdditionalAttributeHeaders_from passedAdditionalAttributeHeader (key # keys) =
     (if passedAdditionalAttributeHeader
      then key # findAdditionalAttributeHeaders_from True keys
      else if key = ''additional_attributes''
      then findAdditionalAttributeHeaders_from True keys
      else findAdditionalAttributeHeaders_from False keys)"

definition findAdditionalAttributeHeaders :: "string list \<Rightarrow> string list" where
  "findAdditionalAttributeHeaders headers = findAdditionalAttributeHeaders_from False headers"

text \<open>\<open>columns\<close> is always an array here, so neither \<^verbatim>\<open>!columns\<close> nor the wrapping of
  a single name applies.\<close>

definition extractColumns :: "obj \<Rightarrow> string list \<Rightarrow> obj" where
  "extractColumns data columns = filter (\<lambda>(key, v). key \<in> set columns) data"

definition purgeColumns :: "obj \<Rightarrow> string list \<Rightarrow> obj" where
  "purgeColumns data columns = filter (\<lambda>(key, v). key \<notin> set columns) data"

definition convertColumnsToStringKeyValue :: "obj \<Rightarrow> string \<Rightarrow> string" where
  "convertColumnsToStringKeyValue data multiValueSeperator =
     js_join multiValueSeperator (map (\<lambda>(key, v). key @ ''='' @ to_string v) data)"

subsection \<open>The attribute pattern\<close>

text \<open>
  \<^verbatim>\<open>/(?<attributeCode>[^\(\W]*)\W?\((?<label>[^\)]*)\)/\<close> is a sequence of five
  items. \<open>run\<close> matches a sequence at the start of a string as a backtracking matcher
  does, every quantifier greedy, and returns the text each item consumed; \<open>search\<close>
  is \<^verbatim>\<open>String.prototype.match\<close>: the first start position with a match.
\<close>

datatype item = One "char \<Rightarrow> bool" | Opt "char \<Rightarrow> bool" | Star "char \<Rightarrow> bool"

fun run :: "item list \<Rightarrow> string \<Rightarrow> string list option" where
  "run [] s = Some []"
| "run (One p # its) [] = None"
| "run (One p # its) (c # cs) = (if p c then map_option ((#) [c]) (run its cs) else None)"
| "run (Opt p # its) [] = map_option ((#) []) (run its [])"
| "run (Opt p # its) (c # cs) =
     (case (if p c then run its cs else None) of
        Some segs \<Rightarrow> Some ([c] # segs)
      | None \<Rightarrow> map_option ((#) []) (run its (c # cs)))"
| "run (Star p # its) [] = map_option ((#) []) (run its [])"
| "run (Star p # its) (c # cs) =
     (case (if p c then run (Star p # its) cs else None) of
        Some (seg # segs) \<Rightarrow> Some ((c # seg) # segs)
      | _ \<Rightarrow> map_option ((#) []) (run its (c # cs)))"

fun search :: "item list \<Rightarrow> string \<Rightarrow> string list option" where
  "search its [] = run its []"
| "search its (c # cs) =
     (case run its (c # cs) of
        Some segs \<Rightarrow> Some segs
      | None \<Rightarrow> search its cs)"

definition is_word :: "char \<Rightarrow> bool" where
  "is_word c =
     (let n = (of_char c :: nat)
      in (48 \<le> n \<and> n \<le> 57) \<or> (65 \<le> n \<and> n \<le> 90) \<or> (97 \<le> n \<and> n \<le> 122) \<or> n = 95)"

definition attribute_pattern :: "item list" where
  "attribute_pattern =
     [Star (\<lambda>c. c \<noteq> CHR ''('' \<and> is_word c),
      Opt (\<lambda>c. \<not> is_word c),
      One (\<lambda>c. c = CHR ''(''),
      Star (\<lambda>c. c \<noteq> CHR '')''),
      One (\<lambda>c. c = CHR '')'')]"

datatype attr = Attr (attributeCode: string) (label: string)

definition match_groups :: "string \<Rightarrow> attr option" where
  "match_groups piece =
     (case search attribute_pattern piece of
        Some [code, sep, opening, lab, closing] \<Rightarrow> Some (Attr code lab)
      | _ \<Rightarrow> None)"

text \<open>\<^verbatim>\<open>.map(attr => attr.match(...).groups)\<close>: the first piece without a match reads
  \<^verbatim>\<open>groups\<close> of \<^verbatim>\<open>null\<close>. The result of \<^verbatim>\<open>map\<close> is an array, which is truthy, so
  the branch returning \<^verbatim>\<open>false\<close> is never taken.\<close>

fun map_groups :: "string list \<Rightarrow> error + attr list" where
  "map_groups [] = Inr []"
| "map_groups (piece # pieces) =
     (case match_groups piece of
        None \<Rightarrow> Inl (TypeError GroupsOfNull)
      | Some g \<Rightarrow>
          (case map_groups pieces of
             Inl e \<Rightarrow> Inl e
           | Inr gs \<Rightarrow> Inr (g # gs)))"

definition parseConfigurableAttributes :: "string \<Rightarrow> error + attr list" where
  "parseConfigurableAttributes configurableAttributes =
     map_groups (split_on (CHR '','') configurableAttributes)"

subsection \<open>parseInt\<close>

text \<open>\<^verbatim>\<open>parseInt\<close> with no radix; \<open>None\<close> is NaN. The value is exact, as the
  runtime's is up to \<open>2^53\<close>.\<close>

definition digit_of :: "nat \<Rightarrow> char \<Rightarrow> nat option" where
  "digit_of radix c =
     (let n = (of_char c :: nat);
          d = (if 48 \<le> n \<and> n \<le> 57 then Some (n - 48)
               else if 97 \<le> n \<and> n \<le> 122 then Some (n - 87)
               else if 65 \<le> n \<and> n \<le> 90 then Some (n - 55)
               else None)
      in case d of
           Some v \<Rightarrow> if v < radix then Some v else None
         | None \<Rightarrow> None)"

definition parseInt :: "string \<Rightarrow> int option" where
  "parseInt input =
     (let s = dropWhile js_space input;
          negative = (take 1 s = ''-'');
          s1 = (if take 1 s = ''+'' \<or> take 1 s = ''-'' then drop 1 s else s);
          hex = (take 2 s1 = ''0x'' \<or> take 2 s1 = ''0X'');
          radix = (if hex then 16 else 10);
          s2 = (if hex then drop 2 s1 else s1);
          z = takeWhile (\<lambda>c. digit_of radix c \<noteq> None) s2;
          n = foldl (\<lambda>a c. a * radix + the (digit_of radix c)) 0 z
      in if z = [] then None else Some (if negative then - int n else int n))"

section \<open>The handler\<close>

record options =
  onlyCsvResponse :: bool
  multiValueSeperator :: string
  valueGroupSeperator :: string
  autoStockStatusThreshold :: "int option"

text \<open>The query string parameters: each is a string or absent. \<open>only_csv\<close> is the
  outcome of the comparison \<^verbatim>\<open>only_csv == 1\<close>.\<close>

record query =
  only_csv :: bool
  multi_value_seperator :: "string option"
  value_group_seperator :: "string option"
  auto_stock_status_threshold :: "string option"

definition or_default :: "string option \<Rightarrow> string \<Rightarrow> string" where
  "or_default p d = (if str_truthy p then the p else d)"

definition parse_threshold :: "string option \<Rightarrow> int option" where
  "parse_threshold p =
     (case parseInt (case p of None \<Rightarrow> ''undefined'' | Some s \<Rightarrow> s) of
        None \<Rightarrow> None
      | Some n \<Rightarrow> if n = 0 then None else Some n)"

definition establish_options :: "query \<Rightarrow> options" where
  "establish_options q =
     \<lparr> onlyCsvResponse = only_csv q,
       multiValueSeperator = or_default (multi_value_seperator q) ''|'',
       valueGroupSeperator = or_default (value_group_seperator q) ''$'',
       autoStockStatusThreshold = parse_threshold (auto_stock_status_threshold q) \<rparr>"

subsection \<open>Indexing the SKUs\<close>

fun index_skus ::
  "csv_row list \<Rightarrow> nat \<Rightarrow> (string \<times> nat) list \<Rightarrow> string list
     \<Rightarrow> error + ((string \<times> nat) list \<times> string list)" where
  "index_skus [] i skuIndex duplicateSkus = Inr (skuIndex, duplicateSkus)"
| "index_skus (row # rows) i skuIndex duplicateSkus =
     (case map_of row ''sku'' of
        None \<Rightarrow> Inl (TypeError TrimOfUndefined)
      | Some sku \<Rightarrow>
          if length (trim sku) = 0 then index_skus rows (Suc i) skuIndex duplicateSkus
          else index_skus rows (Suc i) (dict_set skuIndex sku i)
                 (if dict_defined skuIndex sku then duplicateSkus @ [sku]
                  else duplicateSkus))"

text \<open>\<^verbatim>\<open>duplicateSkus.length.length\<close> is undefined, so the message never has the
  plural \<^verbatim>\<open>s\<close>.\<close>

definition duplicate_message :: "string list \<Rightarrow> string" where
  "duplicate_message duplicateSkus =
     ''Can't handle duplicate SKU'' @ '': '' @ js_join '', '' duplicateSkus"

subsection \<open>Interdependencies\<close>

record relationships =
  configurableChildrenByParent :: "(string \<times> string list) list"
  configurableLabelsByParent :: "(string \<times> string) list"
  configurableParentByChildren :: "(string \<times> string) list"
  configurableAttributeValuesByChildren :: "(string \<times> obj) list"

definition no_relationships :: relationships where
  "no_relationships =
     \<lparr> configurableChildrenByParent = [], configurableLabelsByParent = [],
       configurableParentByChildren = [], configurableAttributeValuesByChildren = [] \<rparr>"

definition missing_value_message :: "string \<Rightarrow> string \<Rightarrow> string" where
  "missing_value_message code sku =
     ''Couldn't find value for '' @ code @ '' on child simple product '' @ sku"

text \<open>The loop over the parsed attributes. It fills the object that was stored under the
  child's SKU just before; the model builds the object and stores it afterwards, which is
  the same, as a throw discards every store.\<close>

fun attribute_values :: "csv_row \<Rightarrow> string \<Rightarrow> attr list \<Rightarrow> obj \<Rightarrow> error + obj" where
  "attribute_values row sku [] vals = Inr vals"
| "attribute_values row sku (a # attrs) vals =
     (if \<not> truthy (js_get (cells row) (attributeCode a))
      then Inl (Error (missing_value_message (attributeCode a) sku))
      else attribute_values row sku attrs
             (obj_set vals (attributeCode a) (js_get (cells row) (attributeCode a))))"

definition push_child ::
  "(string \<times> string list) list \<Rightarrow> string \<Rightarrow> string
     \<Rightarrow> error + (string \<times> string list) list" where
  "push_child d parent sku =
     (case map_of d parent of
        Some children \<Rightarrow> Inr (AList.update parent (children @ [sku]) d)
      | None \<Rightarrow> Inl (TypeError PushNotFunction))"

definition labels_string :: "options \<Rightarrow> attr list \<Rightarrow> string" where
  "labels_string opts attrs =
     js_join (multiValueSeperator opts) (map (\<lambda>a. attributeCode a @ ''='' @ label a) attrs)"

definition relate_row :: "options \<Rightarrow> relationships \<Rightarrow> csv_row \<Rightarrow> error + relationships" where
  "relate_row opts rel row =
     (case map_of row ''sku'' of
        None \<Rightarrow> Inl (TypeError LengthOfUndefined)
      | Some sku \<Rightarrow>
          if length sku = 0 then Inr rel
          else if str_truthy (map_of row ''parent_sku'')
                  \<and> str_truthy (map_of row ''configurable_attributes'')
          then
            (let parent = the (map_of row ''parent_sku'');
                 children0 =
                   (if \<not> dict_defined (configurableChildrenByParent rel) parent
                    then dict_set (configurableChildrenByParent rel) parent []
                    else configurableChildrenByParent rel)
             in case parseConfigurableAttributes (the (map_of row ''configurable_attributes'')) of
                  Inl e \<Rightarrow> Inl e
                | Inr configurableAttributes \<Rightarrow>
                    (case push_child children0 parent sku of
                       Inl e \<Rightarrow> Inl e
                     | Inr children1 \<Rightarrow>
                         (case attribute_values row sku configurableAttributes [] of
                            Inl e \<Rightarrow> Inl e
                          | Inr vals \<Rightarrow>
                              Inr \<lparr> configurableChildrenByParent = children1,
                                    configurableLabelsByParent =
                                      dict_set (configurableLabelsByParent rel) parent
                                        (labels_string opts configurableAttributes),
                                    configurableParentByChildren =
                                      dict_set (configurableParentByChildren rel) sku parent,
                                    configurableAttributeValuesByChildren =
                                      dict_set (configurableAttributeValuesByChildren rel)
                                        sku vals \<rparr>)))
          else Inr rel)"

fun relate_rows :: "options \<Rightarrow> relationships \<Rightarrow> csv_row list \<Rightarrow> error + relationships" where
  "relate_rows opts rel [] = Inr rel"
| "relate_rows opts rel (row # rows) =
     (case relate_row opts rel row of
        Inl e \<Rightarrow> Inl e
      | Inr rel' \<Rightarrow> relate_rows opts rel' rows)"

subsection \<open>Rewriting the rows\<close>

definition encode_child :: "options \<Rightarrow> relationships \<Rightarrow> string \<Rightarrow> string" where
  "encode_child opts rel childSku =
     (let variations =
            object_assign [(''sku'', JStr childSku)]
              (case map_of (configurableAttributeValuesByChildren rel) childSku of
                 Some vals \<Rightarrow> vals
               | None \<Rightarrow> [])
      in convertColumnsToStringKeyValue variations (multiValueSeperator opts))"

definition labels_of :: "relationships \<Rightarrow> string \<Rightarrow> jsval" where
  "labels_of rel sku =
     (case map_of (configurableLabelsByParent rel) sku of
        Some l \<Rightarrow> JStr l
      | None \<Rightarrow> if inherited sku then JProto sku else JUndefined)"

text \<open>The placeholder columns, and the configurable data of a parent. An inherited
  member is truthy but has no \<^verbatim>\<open>map\<close>.\<close>

definition add_configurable :: "options \<Rightarrow> relationships \<Rightarrow> string \<Rightarrow> obj \<Rightarrow> error + obj" where
  "add_configurable opts rel sku row =
     (case map_of (configurableChildrenByParent rel) sku of
        Some children \<Rightarrow>
          Inr (obj_set
                 (obj_set row ''configurable_variations''
                    (JStr (js_join (valueGroupSeperator opts)
                             (map (encode_child opts rel) children))))
                 ''configurable_variation_labels'' (labels_of rel sku))
      | None \<Rightarrow> if inherited sku then Inl (TypeError MapNotFunction) else Inr row)"

definition placeholders :: "relationships \<Rightarrow> obj \<Rightarrow> obj" where
  "placeholders rel row =
     (let row1 =
            (if length (configurableChildrenByParent rel) \<noteq> 0
             then obj_set (obj_set row ''configurable_variations'' (JStr ''''))
                    ''configurable_variation_labels'' (JStr '''')
             else row)
      in obj_set row1 ''additional_attributes'' (JStr ''''))"

text \<open>\<^verbatim>\<open>if (additionalAttributeHeaders)\<close> tests an array, which is truthy also when it
  is empty: both guarded statements always run.\<close>

definition squash_additional :: "options \<Rightarrow> string list \<Rightarrow> obj \<Rightarrow> obj" where
  "squash_additional opts additionalAttributeHeaders row =
     obj_set row ''additional_attributes''
       (JStr (convertColumnsToStringKeyValue
                (extractColumns row additionalAttributeHeaders) (multiValueSeperator opts)))"

definition threshold_set :: "options \<Rightarrow> bool" where
  "threshold_set opts =
     (case autoStockStatusThreshold opts of None \<Rightarrow> False | Some t \<Rightarrow> t \<noteq> 0)"

definition qty_reaches :: "options \<Rightarrow> obj \<Rightarrow> bool" where
  "qty_reaches opts row =
     (case parseInt (to_string (js_get row ''qty'')) of
        None \<Rightarrow> False
      | Some qty \<Rightarrow> qty \<ge> the (autoStockStatusThreshold opts))"

definition auto_stock_status :: "options \<Rightarrow> obj \<Rightarrow> obj" where
  "auto_stock_status opts row =
     (if threshold_set opts \<and> truthy (js_get row ''qty'') \<and> truthy (js_get row ''is_in_stock'')
      then (if qty_reaches opts row
            then obj_set row ''is_in_stock'' (JNum 1)
            else obj_set row ''is_in_stock'' (JNum 0))
      else row)"

definition modify_row ::
  "options \<Rightarrow> relationships \<Rightarrow> string list \<Rightarrow> string \<Rightarrow> obj \<Rightarrow> error + obj" where
  "modify_row opts rel additionalAttributeHeaders sku row =
     (case add_configurable opts rel sku (placeholders rel row) of
        Inl e \<Rightarrow> Inl e
      | Inr row1 \<Rightarrow>
          Inr (purgeColumns
                 (purgeColumns
                    (auto_stock_status opts
                       (squash_additional opts additionalAttributeHeaders row1))
                    [''parent_sku'', ''configurable_attributes''])
                 additionalAttributeHeaders))"

fun modify_rows ::
  "options \<Rightarrow> relationships \<Rightarrow> string list \<Rightarrow> csv_row list \<Rightarrow> obj list \<Rightarrow> error + obj list" where
  "modify_rows opts rel hdrs [] modifiedData = Inr modifiedData"
| "modify_rows opts rel hdrs (row # rows) modifiedData =
     (case map_of row ''sku'' of
        None \<Rightarrow> Inl (TypeError TrimOfUndefined)
      | Some sku \<Rightarrow>
          if length (trim sku) = 0 then modify_rows opts rel hdrs rows modifiedData
          else (case modify_row opts rel hdrs sku (cells row) of
                  Inl e \<Rightarrow> Inl e
                | Inr row' \<Rightarrow> modify_rows opts rel hdrs rows (modifiedData @ [row'])))"

text \<open>The body of the \<^verbatim>\<open>try\<close> block, on the rows the CSV parser returned.\<close>

definition transform :: "options \<Rightarrow> csv_row list \<Rightarrow> error + obj list" where
  "transform opts data =
     (case data of
        [] \<Rightarrow> Inl (TypeError KeysOfUndefined)
      | first # others \<Rightarrow>
          (let additionalAttributeHeaders = findAdditionalAttributeHeaders (map fst first)
           in case index_skus data 0 [] [] of
                Inl e \<Rightarrow> Inl e
              | Inr (skuIndex, duplicateSkus) \<Rightarrow>
                  if length duplicateSkus \<noteq> 0
                  then Inl (Error (duplicate_message duplicateSkus))
                  else (case relate_rows opts no_relationships data of
                          Inl e \<Rightarrow> Inl e
                        | Inr rel \<Rightarrow>
                            modify_rows opts rel additionalAttributeHeaders data [])))"

datatype body = ErrorJson string | CsvOnly "obj list" | SuccessJson "obj list"

definition handler :: "query \<Rightarrow> csv_row list \<Rightarrow> nat \<times> body" where
  "handler q data =
     (let opts = establish_options q
      in case transform opts data of
           Inl e \<Rightarrow> (401, ErrorJson (message e))
         | Inr modifiedData \<Rightarrow>
             (200, if onlyCsvResponse opts then CsvOnly modifiedData
                   else SuccessJson modifiedData))"

section \<open>Notions used by the properties\<close>

text \<open>The options of a request without query parameters, and of one that only sets the
  stock threshold to 10.\<close>

definition default_query :: query where
  "default_query =
     \<lparr> only_csv = False, multi_value_seperator = None, value_group_seperator = None,
       auto_stock_status_threshold = None \<rparr>"

definition default_options :: options where
  "default_options = establish_options default_query"







text \<open>
  The rows of a dataset as the specification names them. A \<^emph>\<open>product\<close> row has a SKU
  that is not blank; a \<^emph>\<open>child\<close> row has both \<open>parent_sku\<close> and
  \<open>configurable_attributes\<close> populated; \<open>spec_of\<close> is its parsed attribute spec, which
  is \<^emph>\<open>malformed\<close> when the pattern finds no match in one of the comma-separated
  pieces; a row \<^emph>\<open>has a value\<close> for a code when its own cell is present and not empty.
  \<open>passes_index\<close>: the first pass ends without fault and with no duplicate.
\<close>

definition sku_of :: "csv_row \<Rightarrow> string" where
  "sku_of row = (case map_of row ''sku'' of Some s \<Rightarrow> s | None \<Rightarrow> [])"

definition is_product :: "csv_row \<Rightarrow> bool" where
  "is_product row = (trim (sku_of row) \<noteq> [])"

definition products :: "csv_row list \<Rightarrow> csv_row list" where
  "products data = filter is_product data"

definition child_row :: "csv_row \<Rightarrow> bool" where
  "child_row row =
     (str_truthy (map_of row ''parent_sku'') \<and> str_truthy (map_of row ''configurable_attributes''))"

definition spec_of :: "csv_row \<Rightarrow> error + attr list" where
  "spec_of row = parseConfigurableAttributes (the (map_of row ''configurable_attributes''))"

definition malformed_spec :: "csv_row \<Rightarrow> bool" where
  "malformed_spec row =
     list_ex (\<lambda>piece. match_groups piece = None)
       (split_on (CHR '','') (the (map_of row ''configurable_attributes'')))"


definition passes_index :: "csv_row list \<Rightarrow> bool" where
  "passes_index data =
     (case index_skus data 0 [] [] of
        Inl e \<Rightarrow> False
      | Inr (skuIndex, duplicateSkus) \<Rightarrow> duplicateSkus = [])"

text \<open>Example datasets: one child whose attribute spec is a bare code; a parent and a
  child without a size; a parent with two complete children and a trailing blank row.\<close>

definition bare_code_rows :: "string \<Rightarrow> csv_row list" where
  "bare_code_rows sku =
     [[(''sku'', sku), (''parent_sku'', ''P''), (''configurable_attributes'', ''color''),
       (''color'', ''red'')]]"


definition family_rows :: "csv_row list" where
  "family_rows =
     [[(''sku'', ''P''), (''parent_sku'', ''''), (''configurable_attributes'', ''''),
       (''color'', ''''), (''size'', '''')],
      [(''sku'', ''C1''), (''parent_sku'', ''P''),
       (''configurable_attributes'', ''color(Color),size(Size)''),
       (''color'', ''red''), (''size'', ''S'')],
      [(''sku'', ''C2''), (''parent_sku'', ''P''),
       (''configurable_attributes'', ''color(Color),size(Size)''),
       (''color'', ''blue''), (''size'', ''M'')],
      [(''sku'', '''')]]"

text \<open>
  The rows the second pass relates: a non-empty \<open>sku\<close> (it does not trim) and both
  child columns populated. \<open>children_in data p\<close> are those naming the parent \<open>p\<close>, in
  input order; \<open>values_of\<close> is the attribute-value object the pass records for a row;
  \<open>headers_of\<close> are the additional-attribute headers of the dataset; \<open>listed\<close> is
  the child list stored under a key, empty when there is none.
\<close>

definition related :: "csv_row \<Rightarrow> bool" where
  "related row = (sku_of row \<noteq> [] \<and> child_row row)"

definition parent_of :: "csv_row \<Rightarrow> string" where
  "parent_of row = the (map_of row ''parent_sku'')"

definition children_in :: "csv_row list \<Rightarrow> string \<Rightarrow> csv_row list" where
  "children_in data parent = filter (\<lambda>row. related row \<and> parent_of row = parent) data"

definition values_of :: "csv_row \<Rightarrow> obj" where
  "values_of row =
     (case spec_of row of
        Inl e \<Rightarrow> []
      | Inr attrs \<Rightarrow>
          (case attribute_values row (sku_of row) attrs [] of
             Inl e \<Rightarrow> []
           | Inr vals \<Rightarrow> vals))"

definition headers_of :: "csv_row list \<Rightarrow> string list" where
  "headers_of data = findAdditionalAttributeHeaders (map fst (hd data))"

definition listed :: "(string \<times> string list) list \<Rightarrow> string \<Rightarrow> string list" where
  "listed d k = (case map_of d k of None \<Rightarrow> [] | Some cs \<Rightarrow> cs)"

text \<open>
  The object a child is encoded from (\<^verbatim>\<open>Object.assign({sku: childSku}, values)\<close>), and
  the decoding the specification describes: split on the value-group separator, then on
  the multi-value separator, then on \<open>=\<close>. \<open>encoded_pairs\<close> are the key and value
  strings that were written; \<open>plain_pairs\<close> says that none of them contains a
  separator or \<open>=\<close>.
\<close>

definition variations_of :: "relationships \<Rightarrow> string \<Rightarrow> obj" where
  "variations_of rel childSku =
     object_assign [(''sku'', JStr childSku)]
       (case map_of (configurableAttributeValuesByChildren rel) childSku of
          Some vals \<Rightarrow> vals
        | None \<Rightarrow> [])"

definition decode_variations :: "char \<Rightarrow> char \<Rightarrow> string \<Rightarrow> string list list list" where
  "decode_variations g m s =
     map (\<lambda>grp. map (split_on (CHR ''='')) (split_on m grp)) (split_on g s)"

definition encoded_pairs :: "obj \<Rightarrow> string list list" where
  "encoded_pairs ob = map (\<lambda>(k, v). [k, to_string v]) ob"

definition free_of :: "char \<Rightarrow> char \<Rightarrow> string \<Rightarrow> bool" where
  "free_of g m s = (g \<notin> set s \<and> m \<notin> set s \<and> CHR ''='' \<notin> set s)"

definition plain_pairs :: "char \<Rightarrow> char \<Rightarrow> obj \<Rightarrow> bool" where
  "plain_pairs g m ob = list_all (\<lambda>(k, v). free_of g m k \<and> free_of g m (to_string v)) ob"

text \<open>A child whose colour contains the multi-value separator, and the relationships of
  the complete family.\<close>

definition pipe_rows :: "csv_row list" where
  "pipe_rows =
     [[(''sku'', ''P''), (''parent_sku'', ''''), (''configurable_attributes'', ''''),
       (''color'', '''')],
      [(''sku'', ''C1''), (''parent_sku'', ''P''), (''configurable_attributes'', ''color(Color)''),
       (''color'', ''red|blue'')]]"

definition family_relationships :: relationships where
  "family_relationships = projr (relate_rows default_options no_relationships family_rows)"

text \<open>The SKUs that repeat: each listed once per occurrence after its first.\<close>

fun repeats :: "string list \<Rightarrow> string list \<Rightarrow> string list" where
  "repeats seen [] = []"
| "repeats seen (s # skus) = (if s \<in> set seen then [s] else []) @ repeats (s # seen) skus"


section \<open>The additional-attribute headers\<close>

lemma findAdditionalAttributeHeaders_from_True:
  "findAdditionalAttributeHeaders_from True keys = keys"
  by (induction keys) simp_all

lemma findAdditionalAttributeHeaders_from_False:
  "findAdditionalAttributeHeaders_from False keys =
     drop 1 (dropWhile (\<lambda>key. key \<noteq> ''additional_attributes'') keys)"
  by (induction keys) (simp_all add: findAdditionalAttributeHeaders_from_True)

section \<open>Plain objects\<close>

lemma map_of_replace_value_if:
  "map_of (replace_value k v ob) k' =
     (if k' = k \<and> k \<in> fst ` set ob then Some v else map_of ob k')"
  by (induction ob) (fastforce simp: image_iff)+

lemma map_of_insert_index:
  "map_of (insert_index k v ob) k' = (if k' = k then Some v else map_of ob k')"
  by (induction ob) auto

lemma map_of_obj_set:
  "k \<noteq> ''__proto__'' \<or> k \<in> fst ` set ob \<Longrightarrow>
     map_of (obj_set ob k v) k' = (if k' = k then Some v else map_of ob k')"
proof (cases "k \<in> fst ` set ob")
  case True
  then show ?thesis by (simp add: obj_set_def map_of_replace_value_if)
next
  case False
  then have n: "map_of ob k = None" by (simp add: map_of_eq_None_iff)
  assume "k \<noteq> ''__proto__'' \<or> k \<in> fst ` set ob"
  with False have "k \<noteq> ''__proto__''" by simp
  with False n show ?thesis
    by (simp add: obj_set_def map_of_insert_index map_add_def split: option.splits)
qed

lemma js_get_obj_set:
  "k \<noteq> ''__proto__'' \<or> k \<in> fst ` set ob \<Longrightarrow>
     js_get (obj_set ob k v) k' = (if k' = k then v else js_get ob k')"
  by (simp add: js_get_def map_of_obj_set)

section \<open>The stock-status override\<close>







section \<open>The headers after the marker\<close>

text \<open>
  C5, as the code has it. \<open>findAdditionalAttributeHeaders\<close> returns the headers that
  come strictly after the first header named \<open>additional_attributes\<close>, in their
  original order; the marker itself is not returned. For a header list without the marker
  the result is empty.
\<close>

theorem additional_attribute_headers_follow_marker:
  "findAdditionalAttributeHeaders headers =
     drop 1 (dropWhile (\<lambda>key. key \<noteq> ''additional_attributes'') headers)
   \<and> (''additional_attributes'' \<notin> set headers \<longrightarrow> findAdditionalAttributeHeaders headers = [])"
proof -
  have eq: "findAdditionalAttributeHeaders headers =
      drop 1 (dropWhile (\<lambda>key. key \<noteq> ''additional_attributes'') headers)"
    by (simp only: findAdditionalAttributeHeaders_def findAdditionalAttributeHeaders_from_False)
  have "findAdditionalAttributeHeaders headers = []" if "''additional_attributes'' \<notin> set headers"
  proof -
    from that have "dropWhile (\<lambda>key. key \<noteq> ''additional_attributes'') headers = []"
      by auto
    then show ?thesis by (simp only: eq drop_Nil)
  qed
  with eq show ?thesis by blast
qed

text \<open>A header list without the marker, and one with two headers after it.\<close>

theorem additional_attribute_headers_follow_marker_witness:
  "''additional_attributes'' \<notin> set [''sku'', ''qty'']
   \<and> findAdditionalAttributeHeaders [''sku'', ''qty''] = []
   \<and> findAdditionalAttributeHeaders [''sku'', ''additional_attributes'', ''material'', ''fit'']
       = [''material'', ''fit'']"
  using additional_attribute_headers_follow_marker [of "[''sku'', ''qty'']"]
    additional_attribute_headers_follow_marker
      [of "[''sku'', ''additional_attributes'', ''material'', ''fit'']"]
  by simp

text \<open>
  C5 as stated fails: with headers \<open>sku, additional_attributes, material\<close> the result is
  \<open>material\<close> alone, not the marker and \<open>material\<close>. And a dataset whose headers
  lack the marker still gets an \<open>additional_attributes\<close> column, holding the empty
  string, on its output row.
\<close>

theorem marker_header_is_not_returned:
  "findAdditionalAttributeHeaders [''sku'', ''additional_attributes'', ''material'']
     = [''material'']
   \<and> transform default_options [[(''sku'', ''A''), (''qty'', ''1'')]]
     = Inr [[(''sku'', JStr ''A''), (''qty'', JStr ''1''), (''additional_attributes'', JStr '''')]]"
  by code_simp

section \<open>A threshold that disables the override\<close>




text \<open>A string whose first character is neither white space, a sign nor a decimal digit
  is such a non-numeric string.\<close>

lemma parseInt_no_leading_digit:
  assumes "\<not> js_space c" and "c \<noteq> CHR ''+''" and "c \<noteq> CHR ''-''" and "digit_of 10 c = None"
  shows "parseInt (c # cs) = None"
proof -
  have "c \<noteq> CHR ''0''"
    using assms(4) by (auto simp: digit_of_def)
  with assms show ?thesis
    by (simp add: parseInt_def Let_def)
qed

section \<open>Inputs on which the code departs from the specification\<close>

text \<open>
  C2, evaluated at a dataset whose two SKUs are distinct. \<^verbatim>\<open>skuIndex\<close> is an object
  literal, so \<^verbatim>\<open>typeof skuIndex['constructor']\<close> is \<^verbatim>\<open>'function'\<close> before any
  row has been indexed: the SKU \<open>constructor\<close> is reported as a duplicate at its first
  occurrence.
\<close>

theorem inherited_sku_reported_duplicate:
  "transform default_options
     [[(''sku'', ''constructor''), (''qty'', ''1'')], [(''sku'', ''A1''), (''qty'', ''2'')]]
   = Inl (Error ''Can't handle duplicate SKU: constructor'')"
  by code_simp

text \<open>
  C6, evaluated at a dataset whose second row has the SKU of one space. The first and the
  third pass skip the row (\<^verbatim>\<open>row.sku.trim().length === 0\<close>); the second pass tests
  \<^verbatim>\<open>row.sku.length === 0\<close> and relates it to its parent, whose output row then lists
  it as a variation.
\<close>

theorem whitespace_sku_child_is_related:
  "transform default_options
     [[(''sku'', ''P''), (''parent_sku'', ''''), (''configurable_attributes'', ''''),
       (''color'', '''')],
      [(''sku'', '' ''), (''parent_sku'', ''P''), (''configurable_attributes'', ''color(Color)''),
       (''color'', ''red'')]]
   = Inr [[(''sku'', JStr ''P''), (''color'', JStr ''''),
           (''configurable_variations'', JStr ''sku= |color=red''),
           (''configurable_variation_labels'', JStr ''color=Color''),
           (''additional_attributes'', JStr '''')]]"
  by code_simp

section \<open>Faults of the relationship pass\<close>

lemma map_groups_fault:
  "map_groups pieces = Inl e \<Longrightarrow> e = TypeError GroupsOfNull"
  by (induction pieces arbitrary: e) (auto split: option.splits sum.splits)

lemma map_groups_malformed:
  "list_ex (\<lambda>piece. match_groups piece = None) pieces \<longleftrightarrow>
     map_groups pieces = Inl (TypeError GroupsOfNull)"
  by (induction pieces) (auto split: option.splits sum.splits dest: map_groups_fault)

lemma spec_of_malformed:
  "malformed_spec row \<longleftrightarrow> spec_of row = Inl (TypeError GroupsOfNull)"
  by (simp add: malformed_spec_def spec_of_def parseConfigurableAttributes_def map_groups_malformed)

lemma trim_nonempty: "trim s \<noteq> [] \<Longrightarrow> s \<noteq> []"
  by (auto simp: trim_def)

lemma relate_row_parse_fault:
  assumes "map_of row ''sku'' = Some s" and "s \<noteq> []" and "child_row row"
    and "spec_of row = Inl e"
  shows "relate_row opts rel row = Inl e"
  using assms by (simp add: relate_row_def child_row_def spec_of_def Let_def)

lemma relate_rows_append:
  "relate_rows opts rel (xs @ ys) =
     (case relate_rows opts rel xs of
        Inl e \<Rightarrow> Inl e
      | Inr rel' \<Rightarrow> relate_rows opts rel' ys)"
  by (induction xs arbitrary: rel) (auto split: sum.splits)

lemma relate_rows_abort:
  assumes "row \<in> set data" and "\<And>rel. \<exists>e. relate_row opts rel row = Inl e"
  shows "\<exists>e. relate_rows opts rel0 data = Inl e"
  using assms(1)
proof (induction data arbitrary: rel0)
  case Nil
  then show ?case by simp
next
  case (Cons x xs)
  show ?case
  proof (cases "relate_row opts rel0 x")
    case (Inl e)
    then show ?thesis by simp
  next
    case (Inr rel1)
    with assms(2) [of rel0] have "x \<noteq> row" by auto
    with Cons.prems have "row \<in> set xs" by simp
    from Cons.IH [OF this, of rel1] Inr show ?thesis by simp
  qed
qed

lemma transform_abort:
  assumes "row \<in> set data" and "\<And>rel. \<exists>e. relate_row opts rel row = Inl e"
  shows "\<exists>e. transform opts data = Inl e"
proof -
  from assms(1) obtain first others where d: "data = first # others"
    by (cases data) auto
  from relate_rows_abort [OF assms] obtain e
    where "relate_rows opts no_relationships data = Inl e" by blast
  then show ?thesis
    by (auto simp: transform_def d Let_def split: sum.splits prod.splits)
qed

lemma transform_first_fault:
  assumes "passes_index (pre @ row # post)"
    and "relate_rows opts no_relationships pre = Inr rel"
    and "relate_row opts rel row = Inl e"
  shows "transform opts (pre @ row # post) = Inl e"
proof -
  have r: "relate_rows opts no_relationships (pre @ row # post) = Inl e"
    using assms(2,3) by (simp add: relate_rows_append)
  obtain first others where d: "pre @ row # post = first # others"
    by (cases "pre @ row # post") auto
  from assms(1) obtain idx where "index_skus (pre @ row # post) 0 [] [] = Inr (idx, [])"
    by (auto simp: passes_index_def split: sum.splits prod.splits)
  with r show ?thesis
    unfolding transform_def d [symmetric]
    by (simp add: d Let_def split: list.splits)
qed

lemma handler_error:
  "transform (establish_options q) data = Inl e \<Longrightarrow> handler q data = (401, ErrorJson (message e))"
  by (simp add: handler_def Let_def)

text \<open>
  C7, as the code has it. For every child row with a non-blank SKU whose
  \<open>configurable_attributes\<close> cell has a comma-separated piece in which the
  \<open>code(Label)\<close> pattern finds no match, the transformation aborts and the handler
  answers the structured error response (status 401, no rows). When this row is the first
  failure met (the first pass finds no duplicate and the rows before it are related
  without error) the message is the runtime's text for reading \<^verbatim>\<open>groups\<close> of
  \<^verbatim>\<open>null\<close>, which does not depend on the row.
\<close>

theorem malformed_attribute_spec_aborts:
  assumes "row \<in> set data" and "is_product row" and "child_row row" and "malformed_spec row"
  shows "(\<exists>e. transform (establish_options q) data = Inl e
              \<and> handler q data = (401, ErrorJson (message e)))
       \<and> (\<forall>pre post rel.
             data = pre @ row # post \<and> passes_index data
             \<and> relate_rows (establish_options q) no_relationships pre = Inr rel
             \<longrightarrow> handler q data
                   = (401, ErrorJson ''Cannot read properties of null (reading 'groups')''))"
proof -
  from assms(2) have "sku_of row \<noteq> []"
    by (auto simp: is_product_def dest: trim_nonempty)
  then obtain s where s: "map_of row ''sku'' = Some s" "s \<noteq> []"
    by (auto simp: sku_of_def split: option.splits)
  have f: "relate_row opts rel row = Inl (TypeError GroupsOfNull)" for opts rel
    using relate_row_parse_fault [OF s assms(3)] assms(4) by (simp add: spec_of_malformed)
  then have "\<exists>e. transform (establish_options q) data = Inl e"
    using transform_abort [OF assms(1)] by blast
  then have a: "\<exists>e. transform (establish_options q) data = Inl e
              \<and> handler q data = (401, ErrorJson (message e))"
    by (auto dest: handler_error)
  have b: "handler q data = (401, ErrorJson ''Cannot read properties of null (reading 'groups')'')"
    if "data = pre @ row # post" "passes_index data"
      "relate_rows (establish_options q) no_relationships pre = Inr rel" for pre post rel
  proof -
    have "transform (establish_options q) (pre @ row # post) = Inl (TypeError GroupsOfNull)"
      using that f by (intro transform_first_fault) auto
    with that(1) show ?thesis by (simp add: handler_error)
  qed
  from a b show ?thesis by blast
qed

text \<open>A single child row whose spec is the bare code \<open>color\<close>.\<close>

theorem malformed_attribute_spec_aborts_witness:
  "handler default_query (bare_code_rows ''X1'')
     = (401, ErrorJson ''Cannot read properties of null (reading 'groups')'')
   \<and> (\<exists>e. transform (establish_options default_query) (bare_code_rows ''X1'') = Inl e)"
proof -
  let ?row = "[(''sku'', ''X1''), (''parent_sku'', ''P''), (''configurable_attributes'', ''color''),
       (''color'', ''red'')]"
  have d: "bare_code_rows ''X1'' = [] @ ?row # []" by (simp add: bare_code_rows_def)
  have h: "?row \<in> set (bare_code_rows ''X1'')" "is_product ?row" "child_row ?row"
    "malformed_spec ?row" "passes_index (bare_code_rows ''X1'')"
    by code_simp+
  have r: "relate_rows (establish_options default_query) no_relationships [] = Inr no_relationships"
    by simp
  from malformed_attribute_spec_aborts [OF h(1-4), of default_query] d h(5) r
  show ?thesis by blast
qed

text \<open>
  C7 as stated fails: the error message for the child \<open>X1\<close> is the same text as for
  the child \<open>Y2\<close> and does not contain \<open>X1\<close>.
\<close>

theorem malformed_spec_error_omits_sku:
  "handler default_query (bare_code_rows ''X1'')
     = (401, ErrorJson ''Cannot read properties of null (reading 'groups')'')
   \<and> handler default_query (bare_code_rows ''Y2'')
     = (401, ErrorJson ''Cannot read properties of null (reading 'groups')'')
   \<and> \<not> sublist ''X1'' ''Cannot read properties of null (reading 'groups')''"
  by code_simp

section \<open>Missing attribute values\<close>

lemma map_of_cells: "map_of (cells row) k = map_option JStr (map_of row k)"
  by (induction row) (auto simp: cells_def)





lemma inherited_proto: "inherited ''__proto__''"
  by (simp add: inherited_def proto_names_def)



lemma relate_row_child:
  assumes "map_of row ''sku'' = Some s" and "s \<noteq> []" and "child_row row"
    and "spec_of row = Inr attrs"
  shows "relate_row opts rel row =
     (let parent = the (map_of row ''parent_sku'');
          children0 =
            (if \<not> dict_defined (configurableChildrenByParent rel) parent
             then dict_set (configurableChildrenByParent rel) parent []
             else configurableChildrenByParent rel)
      in case push_child children0 parent s of
           Inl e \<Rightarrow> Inl e
         | Inr children1 \<Rightarrow>
             (case attribute_values row s attrs [] of
                Inl e \<Rightarrow> Inl e
              | Inr vals \<Rightarrow>
                  Inr \<lparr> configurableChildrenByParent = children1,
                        configurableLabelsByParent =
                          dict_set (configurableLabelsByParent rel) parent
                            (labels_string opts attrs),
                        configurableParentByChildren =
                          dict_set (configurableParentByChildren rel) s parent,
                        configurableAttributeValuesByChildren =
                          dict_set (configurableAttributeValuesByChildren rel) s vals \<rparr>))"
  using assms by (simp add: relate_row_def child_row_def spec_of_def Let_def)







lemma modify_rows_only_faults:
  "modify_rows opts rel hdrs rows acc = Inl e \<Longrightarrow> \<exists>f. e = TypeError f"
  by (induction rows arbitrary: acc)
    (auto simp: modify_row_def add_configurable_def split: option.splits if_splits sum.splits)

lemma duplicate_is_not_missing:
  "duplicate_message dups \<noteq> missing_value_message code sku"
  by (simp add: duplicate_message_def missing_value_message_def)





section \<open>What the three passes compute\<close>

subsection \<open>The first pass\<close>

lemma index_skus_dups_grow:
  "index_skus rows i idx dups = Inr (idx', dups') \<Longrightarrow> \<exists>ext. dups' = dups @ ext"
proof (induction rows arbitrary: i idx dups)
  case Nil
  then show ?case by simp
next
  case (Cons row rows)
  then show ?case
    by (fastforce split: option.splits if_splits)
qed

lemma dict_defined_dict_set:
  "dict_defined (dict_set d k v) k' \<longleftrightarrow> dict_defined d k' \<or> (k' = k \<and> k \<noteq> ''__proto__'')"
  by (auto simp: dict_defined_def dict_set_def update_conv')

lemma index_skus_distinct:
  "index_skus rows i idx dups = Inr (idx', []) \<Longrightarrow>
     distinct (map sku_of (products rows))
     \<and> (\<forall>r \<in> set (products rows). \<not> dict_defined idx (sku_of r))"
proof (induction rows arbitrary: i idx dups)
  case Nil
  then show ?case by (simp add: products_def)
next
  case (Cons row rows)
  from Cons.prems obtain s where s: "map_of row ''sku'' = Some s"
    by (auto split: option.splits)
  then have k: "sku_of row = s" by (simp add: sku_of_def)
  show ?case
  proof (cases "trim s = []")
    case True
    with Cons.prems s have "index_skus rows (Suc i) idx dups = Inr (idx', [])" by simp
    from Cons.IH [OF this] True k show ?thesis by (simp add: products_def is_product_def)
  next
    case False
    let ?dups = "if dict_defined idx s then dups @ [s] else dups"
    from False Cons.prems s
    have r: "index_skus rows (Suc i) (dict_set idx s i) ?dups = Inr (idx', [])" by simp
    from index_skus_dups_grow [OF r] have "?dups = []" by simp
    then have nd: "\<not> dict_defined idx s" by (auto split: if_splits)
    then have np: "s \<noteq> ''__proto__''"
      by (auto simp: dict_defined_def inherited_def proto_names_def)
    from Cons.IH [OF r]
    have d: "distinct (map sku_of (products rows))"
      and f: "\<forall>r \<in> set (products rows). \<not> dict_defined (dict_set idx s i) (sku_of r)"
      by simp_all
    from f np have "s \<notin> sku_of ` set (products rows)"
      by (auto simp: dict_defined_dict_set)
    moreover from f have "\<forall>r \<in> set (products rows). \<not> dict_defined idx (sku_of r)"
      by (auto simp: dict_defined_dict_set)
    ultimately show ?thesis
      using d nd False k by (simp add: products_def is_product_def)
  qed
qed

lemma passes_index_distinct:
  assumes "passes_index data"
  shows "distinct (map sku_of (products data))"
    and "\<forall>r \<in> set (products data). \<not> inherited (sku_of r)"
proof -
  from assms obtain idx where "index_skus data 0 [] [] = Inr (idx, [])"
    by (auto simp: passes_index_def split: sum.splits prod.splits)
  from index_skus_distinct [OF this]
  show "distinct (map sku_of (products data))"
    and "\<forall>r \<in> set (products data). \<not> inherited (sku_of r)"
    by (simp_all add: dict_defined_def)
qed

lemma product_unique:
  assumes "passes_index data" and "r \<in> set data" and "is_product r"
    and "r' \<in> set data" and "sku_of r' = sku_of r"
  shows "r' = r"
proof -
  from assms(3,5) have "is_product r'" by (simp add: is_product_def)
  with assms(2-4) have m: "r \<in> set (products data)" "r' \<in> set (products data)"
    by (simp_all add: products_def)
  from passes_index_distinct(1) [OF assms(1)] have "inj_on sku_of (set (products data))"
    by (simp add: distinct_map)
  with m assms(5) show ?thesis by (auto dest: inj_onD)
qed

subsection \<open>The second pass\<close>

lemma relate_row_unrelated:
  "\<not> related row \<Longrightarrow> relate_row opts rel row = Inr rel' \<Longrightarrow> rel' = rel"
  by (auto simp: relate_row_def related_def sku_of_def child_row_def
      split: option.splits if_splits)

lemma relate_row_related:
  assumes "related row" and "relate_row opts rel row = Inr rel'"
  obtains attrs vals children1 where
    "spec_of row = Inr attrs"
    "attribute_values row (sku_of row) attrs [] = Inr vals"
    "push_child
       (if \<not> dict_defined (configurableChildrenByParent rel) (parent_of row)
        then dict_set (configurableChildrenByParent rel) (parent_of row) []
        else configurableChildrenByParent rel)
       (parent_of row) (sku_of row) = Inr children1"
    "rel' = \<lparr> configurableChildrenByParent = children1,
             configurableLabelsByParent =
               dict_set (configurableLabelsByParent rel) (parent_of row)
                 (labels_string opts attrs),
             configurableParentByChildren =
               dict_set (configurableParentByChildren rel) (sku_of row) (parent_of row),
             configurableAttributeValuesByChildren =
               dict_set (configurableAttributeValuesByChildren rel) (sku_of row) vals \<rparr>"
proof -
  from assms(1) obtain s where s: "map_of row ''sku'' = Some s" "s \<noteq> []" "sku_of row = s"
    by (auto simp: related_def sku_of_def split: option.splits)
  from assms(1) have c: "child_row row" by (simp add: related_def)
  show thesis
  proof (cases "spec_of row")
    case (Inl e)
    with relate_row_parse_fault [OF s(1,2) c, of e opts rel] assms(2) show ?thesis by simp
  next
    case (Inr attrs)
    from assms(2) show ?thesis
      unfolding relate_row_child [OF s(1,2) c Inr]
      by (auto simp: Let_def s(3) parent_of_def Inr intro!: that split: sum.splits)
  qed
qed

lemma push_child_map_of:
  "push_child d parent s = Inr c \<Longrightarrow>
     map_of c p = (if p = parent then Some (listed d parent @ [s]) else map_of d p)"
  by (auto simp: push_child_def listed_def update_conv' split: option.splits)

lemma initial_children:
  "\<not> dict_defined d parent \<Longrightarrow> listed (dict_set d parent []) parent = listed d parent"
  "p \<noteq> parent \<Longrightarrow> map_of (dict_set d parent v) p = map_of d p"
  by (auto simp: listed_def dict_defined_def dict_set_def update_conv' split: option.splits)

lemma relate_row_children:
  assumes "relate_row opts rel row = Inr rel'"
  shows "map_of (configurableChildrenByParent rel') p =
     (if related row \<and> parent_of row = p
      then Some (listed (configurableChildrenByParent rel) p @ [sku_of row])
      else map_of (configurableChildrenByParent rel) p)"
proof (cases "related row")
  case False
  with relate_row_unrelated [OF False assms] show ?thesis by simp
next
  case True
  from relate_row_related [OF True assms] obtain attrs vals children1 where
    push: "push_child
       (if \<not> dict_defined (configurableChildrenByParent rel) (parent_of row)
        then dict_set (configurableChildrenByParent rel) (parent_of row) []
        else configurableChildrenByParent rel)
       (parent_of row) (sku_of row) = Inr children1"
    and rel': "configurableChildrenByParent rel' = children1"
    by (metis relationships.select_convs(1))
  show ?thesis
    unfolding rel' push_child_map_of [OF push]
    using True by (auto simp: initial_children simp del: if_not_P)
qed

lemma relate_rows_children:
  "relate_rows opts rel data = Inr rel' \<Longrightarrow>
     map_of (configurableChildrenByParent rel') p =
       (if children_in data p = [] then map_of (configurableChildrenByParent rel) p
        else Some (listed (configurableChildrenByParent rel) p @ map sku_of (children_in data p)))"
proof (induction data arbitrary: rel)
  case Nil
  then show ?case by (simp add: children_in_def)
next
  case (Cons row rows)
  from Cons.prems obtain rel1 where 1: "relate_row opts rel row = Inr rel1"
    and 2: "relate_rows opts rel1 rows = Inr rel'"
    by (auto split: sum.splits)
  note c = relate_row_children [OF 1, of p]
  show ?case
    unfolding Cons.IH [OF 2]
    by (auto simp: children_in_def c listed_def)
qed

lemma relate_row_labels:
  assumes "relate_row opts rel row = Inr rel'" and "p \<noteq> ''__proto__''"
  shows "map_of (configurableLabelsByParent rel') p =
     (if related row \<and> parent_of row = p
      then Some (labels_string opts (projr (spec_of row)))
      else map_of (configurableLabelsByParent rel) p)"
proof (cases "related row")
  case False
  with relate_row_unrelated [OF False assms(1)] show ?thesis by simp
next
  case True
  from relate_row_related [OF True assms(1)] obtain attrs where
    "spec_of row = Inr attrs"
    "configurableLabelsByParent rel' =
       dict_set (configurableLabelsByParent rel) (parent_of row) (labels_string opts attrs)"
    by (metis relationships.select_convs(2))
  with True assms(2) show ?thesis
    by (auto simp: dict_set_def update_conv')
qed

lemma relate_rows_labels:
  "relate_rows opts rel data = Inr rel' \<Longrightarrow> p \<noteq> ''__proto__'' \<Longrightarrow>
   \<forall>r \<in> set (children_in data p). spec_of r = Inr attrs \<Longrightarrow>
     map_of (configurableLabelsByParent rel') p =
       (if children_in data p = [] then map_of (configurableLabelsByParent rel) p
        else Some (labels_string opts attrs))"
proof (induction data arbitrary: rel)
  case Nil
  then show ?case by (simp add: children_in_def)
next
  case (Cons row rows)
  from Cons.prems(1) obtain rel1 where 1: "relate_row opts rel row = Inr rel1"
    and 2: "relate_rows opts rel1 rows = Inr rel'"
    by (auto split: sum.splits)
  note c = relate_row_labels [OF 1 Cons.prems(2)]
  from Cons.prems(3) have 3: "\<forall>r \<in> set (children_in rows p). spec_of r = Inr attrs"
    by (simp add: children_in_def)
  from Cons.prems(3) have 4: "related row \<and> parent_of row = p \<Longrightarrow> spec_of row = Inr attrs"
    by (simp add: children_in_def)
  show ?case
    unfolding Cons.IH [OF 2 Cons.prems(2) 3]
    using 4 by (auto simp: children_in_def c)
qed

lemma relate_row_values:
  assumes "relate_row opts rel row = Inr rel'" and "c \<noteq> ''__proto__''"
  shows "map_of (configurableAttributeValuesByChildren rel') c =
     (if related row \<and> sku_of row = c then Some (values_of row)
      else map_of (configurableAttributeValuesByChildren rel) c)"
proof (cases "related row")
  case False
  with relate_row_unrelated [OF False assms(1)] show ?thesis by simp
next
  case True
  from relate_row_related [OF True assms(1)] obtain attrs vals where
    "spec_of row = Inr attrs"
    "attribute_values row (sku_of row) attrs [] = Inr vals"
    "configurableAttributeValuesByChildren rel' =
       dict_set (configurableAttributeValuesByChildren rel) (sku_of row) vals"
    by (metis relationships.select_convs(4))
  with True assms(2) show ?thesis
    by (auto simp: dict_set_def update_conv' values_of_def)
qed

lemma relate_rows_values:
  "relate_rows opts rel data = Inr rel' \<Longrightarrow> c \<noteq> ''__proto__'' \<Longrightarrow>
   related r \<Longrightarrow> sku_of r = c \<Longrightarrow>
   \<forall>r' \<in> set data. sku_of r' = c \<longrightarrow> r' = r \<Longrightarrow>
   r \<in> set data \<or> map_of (configurableAttributeValuesByChildren rel) c = Some (values_of r) \<Longrightarrow>
     map_of (configurableAttributeValuesByChildren rel') c = Some (values_of r)"
proof (induction data arbitrary: rel)
  case Nil
  then show ?case by simp
next
  case (Cons row rows)
  from Cons.prems(1) obtain rel1 where 1: "relate_row opts rel row = Inr rel1"
    and 2: "relate_rows opts rel1 rows = Inr rel'"
    by (auto split: sum.splits)
  note v = relate_row_values [OF 1 Cons.prems(2)]
  from Cons.prems(5) have u: "\<forall>r' \<in> set rows. sku_of r' = c \<longrightarrow> r' = r" by simp
  have "r \<in> set rows \<or> map_of (configurableAttributeValuesByChildren rel1) c = Some (values_of r)"
  proof (cases "sku_of row = c")
    case True
    with Cons.prems(5) have "row = r" by simp
    with Cons.prems(3,4) v show ?thesis by simp
  next
    case False
    with Cons.prems(4,6) v show ?thesis by auto
  qed
  from Cons.IH [OF 2 Cons.prems(2,3,4) u this] show ?case .
qed

lemma relate_rows_related:
  "relate_rows opts rel data = Inr rel' \<Longrightarrow> r \<in> set data \<Longrightarrow> related r \<Longrightarrow>
     \<exists>attrs vals. spec_of r = Inr attrs \<and> attribute_values r (sku_of r) attrs [] = Inr vals"
proof (induction data arbitrary: rel)
  case Nil
  then show ?case by simp
next
  case (Cons row rows)
  from Cons.prems(1) obtain rel1 where 1: "relate_row opts rel row = Inr rel1"
    and 2: "relate_rows opts rel1 rows = Inr rel'"
    by (auto split: sum.splits)
  show ?case
  proof (cases "r = row")
    case True
    with Cons.prems(3) 1 show ?thesis by (auto elim: relate_row_related)
  next
    case False
    with Cons.prems(2) have "r \<in> set rows" by simp
    from Cons.IH [OF 2 this Cons.prems(3)] show ?thesis .
  qed
qed

subsection \<open>The third pass\<close>

lemma modify_rows_result:
  "modify_rows opts rel hdrs rows acc = Inr out \<Longrightarrow>
     \<exists>outs. out = acc @ outs
       \<and> list_all2 (\<lambda>r ob. modify_row opts rel hdrs (sku_of r) (cells r) = Inr ob)
            (products rows) outs"
proof (induction rows arbitrary: acc)
  case Nil
  then show ?case by (simp add: products_def)
next
  case (Cons row rows)
  from Cons.prems obtain s where s: "map_of row ''sku'' = Some s"
    by (auto split: option.splits)
  then have k: "sku_of row = s" by (simp add: sku_of_def)
  show ?case
  proof (cases "trim s = []")
    case True
    with Cons.prems s have "modify_rows opts rel hdrs rows acc = Inr out" by simp
    from Cons.IH [OF this] True k show ?thesis by (simp add: products_def is_product_def)
  next
    case False
    with Cons.prems s obtain row' where
      m: "modify_row opts rel hdrs s (cells row) = Inr row'"
      and r: "modify_rows opts rel hdrs rows (acc @ [row']) = Inr out"
      by (auto split: sum.splits)
    from Cons.IH [OF r] obtain outs where
      "out = (acc @ [row']) @ outs"
      "list_all2 (\<lambda>r ob. modify_row opts rel hdrs (sku_of r) (cells r) = Inr ob)
         (products rows) outs"
      by blast
    with m False k show ?thesis
      by (intro exI [of _ "row' # outs"]) (simp add: products_def is_product_def)
  qed
qed

lemma transform_success:
  assumes "transform opts data = Inr out"
  shows "passes_index data
       \<and> (\<exists>rel. relate_rows opts no_relationships data = Inr rel
              \<and> modify_rows opts rel (headers_of data) data [] = Inr out)"
proof (cases data)
  case Nil
  with assms show ?thesis by (simp add: transform_def)
next
  case (Cons first others)
  with assms show ?thesis
    by (auto simp: transform_def passes_index_def headers_of_def Let_def
        split: sum.splits prod.splits if_splits)
qed

lemma transform_rows:
  assumes "transform opts data = Inr out"
  obtains rel where "passes_index data"
    "relate_rows opts no_relationships data = Inr rel"
    "length out = length (products data)"
    "\<And>i. i < length (products data) \<Longrightarrow>
       modify_row opts rel (headers_of data) (sku_of (products data ! i))
         (cells (products data ! i)) = Inr (out ! i)"
proof -
  from transform_success [OF assms] obtain rel where
    p: "passes_index data" and r: "relate_rows opts no_relationships data = Inr rel"
    and m: "modify_rows opts rel (headers_of data) data [] = Inr out"
    by blast
  from modify_rows_result [OF m]
  have l: "list_all2 (\<lambda>r ob. modify_row opts rel (headers_of data) (sku_of r) (cells r) = Inr ob)
     (products data) out"
    by simp
  then have "length out = length (products data)"
    by (simp add: list_all2_lengthD)
  moreover have "modify_row opts rel (headers_of data) (sku_of (products data ! i))
         (cells (products data ! i)) = Inr (out ! i)" if "i < length (products data)" for i
    using l that by (rule list_all2_nthD)
  ultimately show thesis using p r that by blast
qed

lemma map_of_purgeColumns:
  "map_of (purgeColumns ob cols) k = (if k \<in> set cols then None else map_of ob k)"
  by (induction ob) (auto simp: purgeColumns_def)

lemma js_get_purgeColumns:
  "k \<notin> set cols \<Longrightarrow> js_get (purgeColumns ob cols) k = js_get ob k"
  by (simp add: js_get_def map_of_purgeColumns)

lemma js_get_auto_stock_status:
  "k \<noteq> ''is_in_stock'' \<Longrightarrow> js_get (auto_stock_status opts row) k = js_get row k"
  by (simp add: auto_stock_status_def js_get_obj_set)

lemma js_get_squash_additional:
  "k \<noteq> ''additional_attributes'' \<Longrightarrow>
     js_get (squash_additional opts hdrs row) k = js_get row k"
  by (simp add: squash_additional_def js_get_obj_set)

lemma add_configurable_parent:
  assumes "map_of (configurableChildrenByParent rel) sku = Some children"
  shows "\<exists>row1. add_configurable opts rel sku row = Inr row1
     \<and> js_get row1 ''configurable_variations''
         = JStr (js_join (valueGroupSeperator opts) (map (encode_child opts rel) children))
     \<and> js_get row1 ''configurable_variation_labels'' = labels_of rel sku"
  using assms by (simp add: add_configurable_def js_get_obj_set)

lemma modify_row_parent:
  assumes "modify_row opts rel hdrs sku row = Inr row'"
    and "map_of (configurableChildrenByParent rel) sku = Some children"
  shows "''configurable_variations'' \<notin> set hdrs \<longrightarrow>
           js_get row' ''configurable_variations''
             = JStr (js_join (valueGroupSeperator opts) (map (encode_child opts rel) children))"
    and "''configurable_variation_labels'' \<notin> set hdrs \<longrightarrow>
           js_get row' ''configurable_variation_labels'' = labels_of rel sku"
proof -
  from add_configurable_parent [OF assms(2), of opts "placeholders rel row"]
  obtain row1 where 1: "add_configurable opts rel sku (placeholders rel row) = Inr row1"
    and 2: "js_get row1 ''configurable_variations''
         = JStr (js_join (valueGroupSeperator opts) (map (encode_child opts rel) children))"
    and 3: "js_get row1 ''configurable_variation_labels'' = labels_of rel sku"
    by blast
  from assms(1) 1 have r: "row' = purgeColumns
                 (purgeColumns
                    (auto_stock_status opts (squash_additional opts hdrs row1))
                    [''parent_sku'', ''configurable_attributes''])
                 hdrs"
    by (simp add: modify_row_def)
  show "''configurable_variations'' \<notin> set hdrs \<longrightarrow>
           js_get row' ''configurable_variations''
             = JStr (js_join (valueGroupSeperator opts) (map (encode_child opts rel) children))"
    by (simp add: r js_get_purgeColumns js_get_auto_stock_status js_get_squash_additional 2)
  show "''configurable_variation_labels'' \<notin> set hdrs \<longrightarrow>
           js_get row' ''configurable_variation_labels'' = labels_of rel sku"
    by (simp add: r js_get_purgeColumns js_get_auto_stock_status js_get_squash_additional 3)
qed

text \<open>The output row of a parent, from a successful transformation.\<close>

lemma parent_output:
  assumes "transform opts data = Inr out"
    and "i < length (products data)" and "sku_of (products data ! i) = p"
    and "children_in data p \<noteq> []"
  obtains rel where
    "relate_rows opts no_relationships data = Inr rel"
    "passes_index data"
    "''configurable_variations'' \<notin> set (headers_of data) \<Longrightarrow>
       js_get (out ! i) ''configurable_variations''
         = JStr (js_join (valueGroupSeperator opts)
                   (map (encode_child opts rel) (map sku_of (children_in data p))))"
    "''configurable_variation_labels'' \<notin> set (headers_of data) \<Longrightarrow>
       js_get (out ! i) ''configurable_variation_labels'' = labels_of rel p"
proof -
  from transform_rows [OF assms(1)] obtain rel where
    p: "passes_index data" and r: "relate_rows opts no_relationships data = Inr rel"
    and m: "modify_row opts rel (headers_of data) (sku_of (products data ! i))
         (cells (products data ! i)) = Inr (out ! i)"
    using assms(2) by blast
  from relate_rows_children [OF r, of p] assms(4)
  have c: "map_of (configurableChildrenByParent rel) p = Some (map sku_of (children_in data p))"
    by (simp add: listed_def no_relationships_def)
  from modify_row_parent [OF m [unfolded assms(3)] c] p r that show thesis
    by blast
qed

section \<open>The encoding of a parent\<close>

lemma color_size_spec:
  "parseConfigurableAttributes ''color(Color),size(Size)''
     = Inr [Attr ''color'' ''Color'', Attr ''size'' ''Size'']"
  by code_simp

lemma color_size_not_indices: "\<not> is_array_index ''color''" "\<not> is_array_index ''size''"
  by code_simp+

lemma color_size_values:
  assumes "attribute_values row s [Attr ''color'' ''Color'', Attr ''size'' ''Size''] [] = Inr vals"
    and "map_of row ''color'' = Some v1" and "map_of row ''size'' = Some v2"
  shows "vals = [(''color'', JStr v1), (''size'', JStr v2)]"
  using assms
  by (auto simp: js_get_def map_of_cells obj_set_def color_size_not_indices split: if_splits)

lemma color_size_encoding:
  assumes "map_of (configurableAttributeValuesByChildren rel) c
             = Some [(''color'', JStr v1), (''size'', JStr v2)]"
    and "multiValueSeperator opts = ''|''"
  shows "encode_child opts rel c = ''sku='' @ c @ ''|color='' @ v1 @ ''|size='' @ v2"
  using assms
  by (simp add: encode_child_def obj_set_def convertColumnsToStringKeyValue_def
      color_size_not_indices)

lemma child_of_family:
  assumes "transform opts data = Inr out"
    and "relate_rows opts no_relationships data = Inr rel"
    and "r \<in> set (children_in data p)" and "is_product r"
    and "map_of r ''configurable_attributes'' = Some ''color(Color),size(Size)''"
    and "map_of r ''color'' = Some v1" and "map_of r ''size'' = Some v2"
    and "multiValueSeperator opts = ''|''"
  shows "encode_child opts rel (sku_of r) = ''sku='' @ sku_of r @ ''|color='' @ v1 @ ''|size='' @ v2"
proof -
  from assms(3) have m: "r \<in> set data" and rl: "related r"
    by (simp_all add: children_in_def)
  from transform_success [OF assms(1)] have pi: "passes_index data" by simp
  have s: "spec_of r = Inr [Attr ''color'' ''Color'', Attr ''size'' ''Size'']"
    by (simp add: spec_of_def assms(5) color_size_spec)
  from relate_rows_related [OF assms(2) m rl] s obtain vals where
    v: "attribute_values r (sku_of r) [Attr ''color'' ''Color'', Attr ''size'' ''Size''] [] = Inr vals"
    by auto
  from color_size_values [OF v assms(6,7)]
  have vals: "vals = [(''color'', JStr v1), (''size'', JStr v2)]" .
  from s v vals have vo: "values_of r = [(''color'', JStr v1), (''size'', JStr v2)]"
    by (simp add: values_of_def)
  from m assms(4) have "r \<in> set (products data)" by (simp add: products_def)
  with passes_index_distinct(2) [OF pi] have "\<not> inherited (sku_of r)" by blast
  then have np: "sku_of r \<noteq> ''__proto__''" using inherited_proto by auto
  have u: "\<forall>r' \<in> set data. sku_of r' = sku_of r \<longrightarrow> r' = r"
    using product_unique [OF pi m assms(4)] by blast
  from relate_rows_values [OF assms(2) np rl refl u] m
  have "map_of (configurableAttributeValuesByChildren rel) (sku_of r) = Some (values_of r)"
    by blast
  with vo assms(8) show ?thesis by (simp add: color_size_encoding)
qed

text \<open>
  C1. Let a transformation succeed under the default separators, let the \<open>i\<close>-th
  product row (the rows with a non-blank SKU, in input order) have the SKU \<open>p\<close>, and
  let the child rows naming \<open>p\<close> be \<open>r1\<close> and \<open>r2\<close> in input order, both with a
  non-blank SKU and the attribute spec \<open>color(Color),size(Size)\<close>, with colour and size
  cells \<open>v1, v2\<close> and \<open>v3, v4\<close>. Then the output has one row per product row, and its
  \<open>i\<close>-th row has \<open>configurable_variations\<close> equal to
  \<open>sku=C1|color=v1|size=v2$sku=C2|color=v3|size=v4\<close> and
  \<open>configurable_variation_labels\<close> equal to \<open>color=Color|size=Size\<close>. The two
  output columns are assumed not to be additional-attribute columns of the input, which
  the last step would purge.
\<close>

theorem parent_row_encoding:
  assumes "transform opts data = Inr out"
    and "multiValueSeperator opts = ''|''" and "valueGroupSeperator opts = ''$''"
    and "i < length (products data)" and "sku_of (products data ! i) = p"
    and "children_in data p = [r1, r2]"
    and "is_product r1" and "is_product r2"
    and "map_of r1 ''configurable_attributes'' = Some ''color(Color),size(Size)''"
    and "map_of r2 ''configurable_attributes'' = Some ''color(Color),size(Size)''"
    and "map_of r1 ''color'' = Some v1" and "map_of r1 ''size'' = Some v2"
    and "map_of r2 ''color'' = Some v3" and "map_of r2 ''size'' = Some v4"
    and "''configurable_variations'' \<notin> set (headers_of data)"
    and "''configurable_variation_labels'' \<notin> set (headers_of data)"
  shows "length out = length (products data)
       \<and> js_get (out ! i) ''configurable_variations''
           = JStr (''sku='' @ sku_of r1 @ ''|color='' @ v1 @ ''|size='' @ v2
                   @ ''$sku='' @ sku_of r2 @ ''|color='' @ v3 @ ''|size='' @ v4)
       \<and> js_get (out ! i) ''configurable_variation_labels'' = JStr ''color=Color|size=Size''"
proof -
  from transform_rows [OF assms(1)] have len: "length out = length (products data)"
    by metis
  have ne: "children_in data p \<noteq> []" by (simp add: assms(6))
  from parent_output [OF assms(1,4,5) ne] obtain rel where
    r: "relate_rows opts no_relationships data = Inr rel"
    and pi: "passes_index data"
    and cv: "js_get (out ! i) ''configurable_variations''
         = JStr (js_join (valueGroupSeperator opts)
                   (map (encode_child opts rel) (map sku_of (children_in data p))))"
    and cvl: "js_get (out ! i) ''configurable_variation_labels'' = labels_of rel p"
    using assms(15,16) by blast
  have e1: "encode_child opts rel (sku_of r1)
              = ''sku='' @ sku_of r1 @ ''|color='' @ v1 @ ''|size='' @ v2"
    by (rule child_of_family [OF assms(1) r _ assms(7,9,11,12,2), of p]) (simp add: assms(6))
  have e2: "encode_child opts rel (sku_of r2)
              = ''sku='' @ sku_of r2 @ ''|color='' @ v3 @ ''|size='' @ v4"
    by (rule child_of_family [OF assms(1) r _ assms(8,10,13,14,2), of p]) (simp add: assms(6))
  have a: "js_get (out ! i) ''configurable_variations''
           = JStr (''sku='' @ sku_of r1 @ ''|color='' @ v1 @ ''|size='' @ v2
                   @ ''$sku='' @ sku_of r2 @ ''|color='' @ v3 @ ''|size='' @ v4)"
    by (simp add: cv assms(3,6) e1 e2)
  have "products data ! i \<in> set (products data)" using assms(4) by simp
  with passes_index_distinct(2) [OF pi] assms(5) have "\<not> inherited p" by blast
  then have np: "p \<noteq> ''__proto__''" using inherited_proto by auto
  have sp: "\<forall>r \<in> set (children_in data p).
              spec_of r = Inr [Attr ''color'' ''Color'', Attr ''size'' ''Size'']"
    by (simp add: assms(6) spec_of_def assms(9,10) color_size_spec)
  from relate_rows_labels [OF r np sp] ne
  have "map_of (configurableLabelsByParent rel) p
          = Some (labels_string opts [Attr ''color'' ''Color'', Attr ''size'' ''Size''])"
    by simp
  then have b: "js_get (out ! i) ''configurable_variation_labels'' = JStr ''color=Color|size=Size''"
    by (simp add: cvl labels_of_def labels_string_def assms(2))
  from len a b show ?thesis by simp
qed

text \<open>The family of \<open>P\<close> with the children \<open>C1\<close> and \<open>C2\<close>.\<close>

theorem parent_row_encoding_witness:
  "(case transform default_options family_rows of
      Inl e \<Rightarrow> False
    | Inr out \<Rightarrow>
        length out = 3
        \<and> js_get (out ! 0) ''configurable_variations''
            = JStr ''sku=C1|color=red|size=S$sku=C2|color=blue|size=M''
        \<and> js_get (out ! 0) ''configurable_variation_labels'' = JStr ''color=Color|size=Size'')"
proof -
  let ?c1 = "[(''sku'', ''C1''), (''parent_sku'', ''P''),
       (''configurable_attributes'', ''color(Color),size(Size)''),
       (''color'', ''red''), (''size'', ''S'')]"
  let ?c2 = "[(''sku'', ''C2''), (''parent_sku'', ''P''),
       (''configurable_attributes'', ''color(Color),size(Size)''),
       (''color'', ''blue''), (''size'', ''M'')]"
  obtain out where t: "transform default_options family_rows = Inr out"
  proof -
    have "case transform default_options family_rows of Inl e \<Rightarrow> False | Inr rows \<Rightarrow> True"
      by code_simp
    then show thesis using that by (cases "transform default_options family_rows") auto
  qed
  have o: "multiValueSeperator default_options = ''|''"
    "valueGroupSeperator default_options = ''$''"
    by code_simp+
  have p: "(0::nat) < length (products family_rows)" "sku_of (products family_rows ! 0) = ''P''"
    "length (products family_rows) = 3"
    by code_simp+
  have c: "children_in family_rows ''P'' = [?c1, ?c2]" by code_simp
  have h: "is_product ?c1" "is_product ?c2"
    "''configurable_variations'' \<notin> set (headers_of family_rows)"
    "''configurable_variation_labels'' \<notin> set (headers_of family_rows)"
    by code_simp+
  have m: "map_of ?c1 ''configurable_attributes'' = Some ''color(Color),size(Size)''"
    "map_of ?c2 ''configurable_attributes'' = Some ''color(Color),size(Size)''"
    "map_of ?c1 ''color'' = Some ''red''" "map_of ?c1 ''size'' = Some ''S''"
    "map_of ?c2 ''color'' = Some ''blue''" "map_of ?c2 ''size'' = Some ''M''"
    by simp_all
  have k: "sku_of ?c1 = ''C1''" "sku_of ?c2 = ''C2''" by code_simp+
  from parent_row_encoding [OF t o p(1,2) c h(1,2) m h(3,4)]
  show ?thesis by (simp add: t p(3) k)
qed

section \<open>Decoding the variations\<close>

lemma split_on_absent: "c \<notin> set x \<Longrightarrow> split_on c x = [x]"
  by (induction x) auto

lemma split_on_first: "c \<notin> set x \<Longrightarrow> split_on c (x @ c # rest) = x # split_on c rest"
  by (induction x) auto

lemma split_on_join:
  "xs \<noteq> [] \<Longrightarrow> \<forall>x \<in> set xs. c \<notin> set x \<Longrightarrow> split_on c (js_join [c] xs) = xs"
proof (induction "[c]" xs rule: js_join.induct)
  case 1
  then show ?case by simp
next
  case (2 x)
  then show ?case by (simp add: split_on_absent)
next
  case (3 x y ys)
  then show ?case by (simp add: split_on_first)
qed

lemma set_js_join: "set (js_join sep xs) \<subseteq> set sep \<union> (\<Union>x \<in> set xs. set x)"
  by (induction sep xs rule: js_join.induct) auto

lemma obj_set_nonempty: "ob \<noteq> [] \<Longrightarrow> obj_set ob k v \<noteq> []"
  by (cases ob) (auto simp: obj_set_def split: if_splits)

lemma object_assign_nonempty: "target \<noteq> [] \<Longrightarrow> object_assign target source \<noteq> []"
proof (induction source arbitrary: target)
  case Nil
  then show ?case by simp
next
  case (Cons a source)
  obtain k v where a: "a = (k, v)" by (cases a)
  from Cons.prems have "obj_set target k v \<noteq> []" by (rule obj_set_nonempty)
  from Cons.IH [OF this] show ?case by (simp add: a)
qed
lemma variations_of_nonempty: "variations_of rel c \<noteq> []"
  unfolding variations_of_def by (rule object_assign_nonempty) simp
lemma encode_child_variations:
  "encode_child opts rel c
     = convertColumnsToStringKeyValue (variations_of rel c) (multiValueSeperator opts)"
  by (simp add: encode_child_def variations_of_def)

lemma decode_pair:
  assumes "free_of g m k" and "free_of g m v"
  shows "split_on (CHR ''='') (k @ CHR ''='' # v) = [k, v]"
  using assms by (simp add: free_of_def split_on_first split_on_absent)

lemma decode_group:
  assumes "ob \<noteq> []" and "plain_pairs g m ob" and "m \<noteq> CHR ''=''"
  shows "map (split_on (CHR ''='')) (split_on m (convertColumnsToStringKeyValue ob [m]))
           = encoded_pairs ob"
proof -
  let ?ps = "map (\<lambda>(key, v). key @ ''='' @ to_string v) ob"
  have "\<forall>x \<in> set ?ps. m \<notin> set x"
    using assms(2,3) by (auto simp: plain_pairs_def list_all_iff free_of_def)
  with assms(1) have "split_on m (js_join [m] ?ps) = ?ps"
    by (intro split_on_join) simp_all
  moreover have "map (split_on (CHR ''='')) ?ps = encoded_pairs ob"
    using assms(2)
    by (auto simp: plain_pairs_def list_all_iff encoded_pairs_def decode_pair)
  ultimately show ?thesis by (simp add: convertColumnsToStringKeyValue_def)
qed

lemma group_free_of_separator:
  assumes "plain_pairs g m ob" and "g \<noteq> m" and "g \<noteq> CHR ''=''"
  shows "g \<notin> set (convertColumnsToStringKeyValue ob [m])"
proof
  assume "g \<in> set (convertColumnsToStringKeyValue ob [m])"
  with set_js_join [of "[m]" "map (\<lambda>(key, v). key @ ''='' @ to_string v) ob"]
  have "g \<in> set [m] \<union> (\<Union>x \<in> set (map (\<lambda>(key, v). key @ ''='' @ to_string v) ob). set x)"
    by (auto simp: convertColumnsToStringKeyValue_def)
  with assms show False
    by (auto simp: plain_pairs_def list_all_iff free_of_def)
qed

lemma decode_encoded:
  assumes "children \<noteq> []" and "\<forall>c \<in> set children. plain_pairs g m (variations_of rel c)"
    and "multiValueSeperator opts = [m]" and "g \<noteq> m" and "m \<noteq> CHR ''=''" and "g \<noteq> CHR ''=''"
  shows "decode_variations g m (js_join [g] (map (encode_child opts rel) children))
           = map (\<lambda>c. encoded_pairs (variations_of rel c)) children"
proof -
  let ?gs = "map (encode_child opts rel) children"
  have "\<forall>x \<in> set ?gs. g \<notin> set x"
    using assms(2,3,4,6) by (auto simp: encode_child_variations group_free_of_separator)
  with assms(1) have s: "split_on g (js_join [g] ?gs) = ?gs"
    by (intro split_on_join) simp_all
  have "map (split_on (CHR ''='')) (split_on m (encode_child opts rel c))
          = encoded_pairs (variations_of rel c)" if "c \<in> set children" for c
    using decode_group [OF variations_of_nonempty _ assms(5), of g rel c] assms(2,3) that
    by (simp add: encode_child_variations)
  then have "map (\<lambda>grp. map (split_on (CHR ''='')) (split_on m grp)) ?gs
          = map (\<lambda>c. encoded_pairs (variations_of rel c)) children"
    by simp
  with s show ?thesis by (simp add: decode_variations_def)
qed

text \<open>
  C8, as the code has it. Let the separators be single characters, different from each
  other and from \<open>=\<close>, and let no key or value written for a child of the parent
  \<open>p\<close> contain a separator or \<open>=\<close>. Then decoding the parent's
  \<open>configurable_variations\<close> string gives back, child by child and in order, exactly
  the keys and values of the objects that were encoded: \<open>sku\<close> with the child's SKU
  and every attribute code with its value.
\<close>

theorem variations_round_trip:
  assumes "transform opts data = Inr out"
    and "relate_rows opts no_relationships data = Inr rel"
    and "i < length (products data)" and "sku_of (products data ! i) = p"
    and "children_in data p \<noteq> []"
    and "multiValueSeperator opts = [m]" and "valueGroupSeperator opts = [g]"
    and "g \<noteq> m" and "m \<noteq> CHR ''=''" and "g \<noteq> CHR ''=''"
    and "''configurable_variations'' \<notin> set (headers_of data)"
    and "\<forall>c \<in> set (map sku_of (children_in data p)). plain_pairs g m (variations_of rel c)"
  shows "\<exists>enc. js_get (out ! i) ''configurable_variations'' = JStr enc
           \<and> decode_variations g m enc
               = map (\<lambda>c. encoded_pairs (variations_of rel c)) (map sku_of (children_in data p))"
proof -
  from parent_output [OF assms(1,3,4,5)] obtain rel' where
    r: "relate_rows opts no_relationships data = Inr rel'"
    and cv: "js_get (out ! i) ''configurable_variations''
         = JStr (js_join (valueGroupSeperator opts)
                   (map (encode_child opts rel') (map sku_of (children_in data p))))"
    using assms(11) by blast
  from r assms(2) have "rel' = rel" by simp
  with cv have cv': "js_get (out ! i) ''configurable_variations''
         = JStr (js_join [g] (map (encode_child opts rel) (map sku_of (children_in data p))))"
    by (simp add: assms(7))
  have ne: "map sku_of (children_in data p) \<noteq> []" using assms(5) by simp
  from decode_encoded [OF ne assms(12,6,8,9,10)] cv' show ?thesis by blast
qed

text \<open>The complete family under the default separators.\<close>

theorem variations_round_trip_witness:
  "(case transform default_options family_rows of
      Inl e \<Rightarrow> False
    | Inr out \<Rightarrow>
        decode_variations (CHR ''$'') (CHR ''|'')
          (to_string (js_get (out ! 0) ''configurable_variations''))
        = [[[''sku'', ''C1''], [''color'', ''red''], [''size'', ''S'']],
           [[''sku'', ''C2''], [''color'', ''blue''], [''size'', ''M'']]])"
proof -
  obtain out where t: "transform default_options family_rows = Inr out"
  proof -
    have "case transform default_options family_rows of Inl e \<Rightarrow> False | Inr rows \<Rightarrow> True"
      by code_simp
    then show thesis using that by (cases "transform default_options family_rows") auto
  qed
  have r: "relate_rows default_options no_relationships family_rows = Inr family_relationships"
    unfolding family_relationships_def by code_simp
  have o: "multiValueSeperator default_options = [CHR ''|'']"
    "valueGroupSeperator default_options = [CHR ''$'']"
    by code_simp+
  have p: "(0::nat) < length (products family_rows)" "sku_of (products family_rows ! 0) = ''P''"
    "children_in family_rows ''P'' \<noteq> []"
    by code_simp+
  have n: "CHR ''$'' \<noteq> CHR ''|''" "CHR ''|'' \<noteq> CHR ''=''" "CHR ''$'' \<noteq> CHR ''=''"
    by simp_all
  have h: "''configurable_variations'' \<notin> set (headers_of family_rows)" by code_simp
  have c: "map sku_of (children_in family_rows ''P'') = [''C1'', ''C2'']" by code_simp
  have pl: "plain_pairs (CHR ''$'') (CHR ''|'') (variations_of family_relationships ''C1'')"
    "plain_pairs (CHR ''$'') (CHR ''|'') (variations_of family_relationships ''C2'')"
    by code_simp+
  then have a: "\<forall>c \<in> set (map sku_of (children_in family_rows ''P'')).
      plain_pairs (CHR ''$'') (CHR ''|'') (variations_of family_relationships c)"
    by (simp add: c)
  have e: "encoded_pairs (variations_of family_relationships ''C1'')
        = [[''sku'', ''C1''], [''color'', ''red''], [''size'', ''S'']]"
    "encoded_pairs (variations_of family_relationships ''C2'')
        = [[''sku'', ''C2''], [''color'', ''blue''], [''size'', ''M'']]"
    by code_simp+
  from variations_round_trip [OF t r p o n h a] obtain enc where
    "js_get (out ! 0) ''configurable_variations'' = JStr enc"
    "decode_variations (CHR ''$'') (CHR ''|'') enc
       = map (\<lambda>c. encoded_pairs (variations_of family_relationships c))
           (map sku_of (children_in family_rows ''P''))"
    by blast
  then show ?thesis by (simp add: t c e)
qed

text \<open>
  C8 as stated fails: the colour \<open>red|blue\<close> is written unescaped, and decoding the
  parent's string yields the pairs \<open>sku=C1\<close>, \<open>color=red\<close> and a lone \<open>blue\<close>
  instead of \<open>sku=C1\<close> and \<open>color=red|blue\<close>.
\<close>

theorem separator_in_value_breaks_round_trip:
  "(case transform default_options pipe_rows of
      Inl e \<Rightarrow> False
    | Inr out \<Rightarrow>
        js_get (out ! 0) ''configurable_variations'' = JStr ''sku=C1|color=red|blue'')
   \<and> decode_variations (CHR ''$'') (CHR ''|'') ''sku=C1|color=red|blue''
        = [[[''sku'', ''C1''], [''color'', ''red''], [''blue'']]]
   \<and> (case relate_rows default_options no_relationships pipe_rows of
        Inl e \<Rightarrow> False
      | Inr rel \<Rightarrow>
          map sku_of (children_in pipe_rows ''P'') = [''C1'']
          \<and> encoded_pairs (variations_of rel ''C1'')
              = [[''sku'', ''C1''], [''color'', ''red|blue'']])"
  by code_simp

section \<open>The code on names that are not inherited\<close>

lemma repeats_cong: "set seen = set seen' \<Longrightarrow> repeats seen skus = repeats seen' skus"
proof (induction skus arbitrary: seen seen')
  case Nil
  then show ?case by simp
next
  case (Cons s skus)
  from Cons.prems have "set (s # seen) = set (s # seen')" by simp
  from Cons.IH [OF this] Cons.prems show ?case by simp
qed

lemma repeats_distinct:
  "repeats seen skus = [] \<longleftrightarrow> distinct skus \<and> set skus \<inter> set seen = {}"
  by (induction skus arbitrary: seen) auto

lemma keys_dict_set:
  "k \<noteq> ''__proto__'' \<Longrightarrow> fst ` set (dict_set d k v) = insert k (fst ` set d)"
  by (simp add: dict_set_def AList.dom_update)

lemma attribute_values_error:
  "attribute_values row s attrs vals = Inl e \<Longrightarrow> \<exists>code. e = Error (missing_value_message code s)"
  by (induction attrs arbitrary: vals) (auto split: if_splits)

lemma relate_row_error:
  assumes "relate_row opts rel row = Inl e"
  shows "(\<exists>f. e = TypeError f) \<or> (\<exists>code sku. e = Error (missing_value_message code sku))"
proof (cases "map_of row ''sku''")
  case None
  with assms show ?thesis by (auto simp: relate_row_def)
next
  case (Some s)
  show ?thesis
  proof (cases "s \<noteq> [] \<and> child_row row")
    case False
    with Some assms show ?thesis
      by (auto simp: relate_row_def child_row_def split: if_splits)
  next
    case True
    show ?thesis
    proof (cases "spec_of row")
      case (Inl e')
      with relate_row_parse_fault [OF Some, of e' opts rel] True assms
      have "e = e'" by simp
      with Inl show ?thesis
        by (auto simp: spec_of_def parseConfigurableAttributes_def dest: map_groups_fault)
    next
      case (Inr attrs)
      with assms Some True show ?thesis
        by (auto simp: relate_row_child Let_def push_child_def
            split: sum.splits option.splits dest: attribute_values_error)
    qed
  qed
qed

lemma relate_rows_error:
  "relate_rows opts rel data = Inl e \<Longrightarrow>
     (\<exists>f. e = TypeError f) \<or> (\<exists>code sku. e = Error (missing_value_message code sku))"
proof (induction data arbitrary: rel)
  case Nil
  then show ?case by simp
next
  case (Cons row rows)
  then show ?case
    by (cases "relate_row opts rel row") (auto dest: relate_row_error)
qed

lemma index_skus_repeats:
  assumes "\<forall>row \<in> set rows. map_of row ''sku'' \<noteq> None"
    and "\<forall>row \<in> set (products rows). \<not> inherited (sku_of row)"
  shows "\<exists>idx'. index_skus rows i idx dups
           = Inr (idx', dups @ repeats (map fst idx) (map sku_of (products rows)))"
  using assms
proof (induction rows arbitrary: i idx dups)
  case Nil
  then show ?case by (simp add: products_def)
next
  case (Cons row rows)
  from Cons.prems(1) obtain s where s: "map_of row ''sku'' = Some s" by auto
  then have k: "sku_of row = s" by (simp add: sku_of_def)
  from Cons.prems have p: "\<forall>row \<in> set rows. map_of row ''sku'' \<noteq> None"
    "\<forall>row \<in> set (products rows). \<not> inherited (sku_of row)"
    by (simp_all add: products_def)
  show ?case
  proof (cases "trim s = []")
    case True
    with Cons.IH [OF p, of "Suc i" idx dups] s k show ?thesis
      by (simp add: products_def is_product_def)
  next
    case False
    with Cons.prems(2) k have ni: "\<not> inherited s"
      by (simp add: products_def is_product_def)
    then have np: "s \<noteq> ''__proto__''" using inherited_proto by auto
    have d: "dict_defined idx s \<longleftrightarrow> s \<in> set (map fst idx)"
      using ni by (auto simp: dict_defined_def map_of_eq_None_iff)
    let ?dups = "if dict_defined idx s then dups @ [s] else dups"
    have rp: "repeats (map fst (dict_set idx s i)) (map sku_of (products rows))
            = repeats (s # map fst idx) (map sku_of (products rows))"
      by (rule repeats_cong) (simp add: keys_dict_set [OF np])
    from Cons.IH [OF p, of "Suc i" "dict_set idx s i" ?dups] obtain idx' where
      ih: "index_skus rows (Suc i) (dict_set idx s i) ?dups
             = Inr (idx', ?dups @ repeats (map fst (dict_set idx s i))
                                     (map sku_of (products rows)))"
      by blast
    have st: "index_skus (row # rows) i idx dups
                = index_skus rows (Suc i) (dict_set idx s i) ?dups"
      using s False by simp
    have pr: "map sku_of (products (row # rows)) = s # map sku_of (products rows)"
      using False k by (simp add: products_def is_product_def)
    have "?dups @ repeats (s # map fst idx) (map sku_of (products rows))
            = dups @ repeats (map fst idx) (s # map sku_of (products rows))"
      using d by simp
    with ih rp show ?thesis
      unfolding st pr by simp
  qed
qed

text \<open>
  The first pass on SKUs that name no member of \<^verbatim>\<open>Object.prototype\<close>: the
  transformation ends with the duplicate-SKU error exactly when a non-blank SKU repeats,
  and the message lists every repeated SKU once per occurrence after the first.
\<close>

lemma duplicate_skus_reported:
  assumes "data \<noteq> []" and "\<forall>row \<in> set data. map_of row ''sku'' \<noteq> None"
    and "\<forall>row \<in> set (products data). \<not> inherited (sku_of row)"
  shows "\<not> distinct (map sku_of (products data)) \<longrightarrow>
           transform opts data
             = Inl (Error (duplicate_message (repeats [] (map sku_of (products data)))))"
    and "distinct (map sku_of (products data)) \<longrightarrow>
           (\<forall>dups. transform opts data \<noteq> Inl (Error (duplicate_message dups)))"
proof -
  from index_skus_repeats [OF assms(2,3), of 0 "[]" "[]"] obtain idx where
    i: "index_skus data 0 [] [] = Inr (idx, repeats [] (map sku_of (products data)))"
    by auto
  from assms(1) obtain first others where d: "data = first # others" by (cases data) auto
  show "\<not> distinct (map sku_of (products data)) \<longrightarrow>
           transform opts data
             = Inl (Error (duplicate_message (repeats [] (map sku_of (products data)))))"
    using i unfolding d by (simp add: transform_def Let_def repeats_distinct)
  show "distinct (map sku_of (products data)) \<longrightarrow>
           (\<forall>dups. transform opts data \<noteq> Inl (Error (duplicate_message dups)))"
  proof (intro impI allI notI)
    fix dups
    assume dist: "distinct (map sku_of (products data))"
      and e: "transform opts data = Inl (Error (duplicate_message dups))"
    from dist have r: "repeats [] (map sku_of (products data)) = []"
      by (simp add: repeats_distinct)
    show False
    proof (cases "relate_rows opts no_relationships data")
      case (Inl e')
      with e i r have "e' = Error (duplicate_message dups)"
        unfolding d by (simp add: transform_def Let_def)
      with relate_rows_error [OF Inl] show False
        by (auto simp: duplicate_is_not_missing)
    next
      case (Inr rel)
      with e i r have "modify_rows opts rel (findAdditionalAttributeHeaders (map fst first))
          (first # others) [] = Inl (Error (duplicate_message dups))"
        unfolding d by (simp add: transform_def Let_def)
      then show False by (metis modify_rows_only_faults error.distinct(1))
    qed
  qed
qed



section \<open>Children whose parent is no row\<close>









end
